theory Spec2Isabelle
  imports
    Main
    "HOL-Library.Word"
    "HOL-Library.Log_Nat"
    "HOL-Library.List_Lexorder"
    "HOL-Library.AList"
begin

section \<open>The DPoS arbitrator state engine of Elastos.ELA\<close>

text \<open>
  A shallow embedding of package \<open>state\<close> (the \<open>arbitrators\<close> type: committee rotation,
  reward ledger, illegal-evidence table) and of the view-change countdown of package
  \<open>manager\<close>. Every definition follows the Go function of the same name.
\<close>

subsection \<open>Machine types\<close>

text \<open>
  \<open>uint32\<close> is a 32-bit word: \<open>+\<close>, \<open>-\<close> and \<open>*\<close> wrap around as in Go, \<open>\<le>\<close> and
  \<open><\<close> compare unsigned. Go's \<open>int\<close> (64 bits) and \<open>common.Fixed64\<close> (an \<open>int64\<close> amount,
  in units of 1/100000000 ELA) are modelled by \<open>int\<close>: duty indices are bounded by the
  number of processed blocks and amounts by the coin supply, far below 2^63, so their
  wrap-around is not modelled. A byte slice is a list of 8-bit words; with
  \<open>List_Lexorder\<close> the order on byte slices is the one of \<open>bytes.Compare\<close>.
\<close>

type_synonym uint32 = "32 word"
type_synonym bytes = "8 word list"
type_synonym Fixed64 = int
type_synonym Uint168 = bytes
type_synonym Uint256 = bytes

text \<open>
  A Go map is an association list with one entry per key: \<open>gm_get\<close> is \<open>m[k]\<close> with the
  comma-ok form, \<open>gm_get0\<close> is \<open>m[k]\<close> (the zero value for a missing key), \<open>gm_set\<close> is
  \<open>m[k] = v\<close>. Go iterates a map in an unspecified order; the list order stands for
  one such order. A nil map reads like the empty one.
\<close>

type_synonym ('k, 'v) gomap = "('k \<times> 'v) list"

definition gm_get :: "('k, 'v) gomap \<Rightarrow> 'k \<Rightarrow> 'v option" where
  "gm_get m k = map_of m k"

definition gm_get0 :: "('k, 'v::zero) gomap \<Rightarrow> 'k \<Rightarrow> 'v" where
  "gm_get0 m k = (case map_of m k of None \<Rightarrow> 0 | Some v \<Rightarrow> v)"

definition gm_set :: "'k \<Rightarrow> 'v \<Rightarrow> ('k, 'v) gomap \<Rightarrow> ('k, 'v) gomap" where
  "gm_set k v m = AList.update k v m"

definition gm_values :: "('k, 'v) gomap \<Rightarrow> 'v list" where
  "gm_values m = map snd m"

text \<open>Go's \<open>%\<close> on \<open>int\<close> truncates towards zero: the sign follows the dividend.\<close>

definition go_rem :: "int \<Rightarrow> int \<Rightarrow> int" where
  "go_rem a b = sgn a * (\<bar>a\<bar> mod \<bar>b\<bar>)"

subsection \<open>float64 arithmetic\<close>

text \<open>
  A \<open>float64\<close> value is the rational number it denotes. Each IEEE 754 operation computes
  the exact result and rounds it to the nearest number with a 53-bit significand, ties to
  the even significand: \<open>fl64\<close>. \<open>expo x\<close> is an exponent \<open>e\<close> with
  2^52 \<le> x / 2^e \<le> 2^53. The exponent range is not bounded: the operands
  below come from \<open>int64\<close> values, whose products and quotients have magnitudes between
  2^(-64) and 2^127, inside the normal range of binary64.
\<close>

type_synonym float64 = rat

definition pow2 :: "int \<Rightarrow> rat" where
  "pow2 e = 2 powi e"

definition expo :: "rat \<Rightarrow> int" where
  "expo x = (if 1 \<le> x then bitlen \<lfloor>x\<rfloor> - 53 else - bitlen \<lfloor>1 / x\<rfloor> - 52)"

definition round_even :: "rat \<Rightarrow> int" where
  "round_even s =
     (let f = \<lfloor>s\<rfloor>; d = s - of_int f
      in if d < 1 / 2 then f
         else if 1 / 2 < d then f + 1
         else if even f then f else f + 1)"

definition fl64 :: "rat \<Rightarrow> float64" where
  "fl64 x =
     (if x = 0 then 0
      else if 0 < x then of_int (round_even (x / pow2 (expo x))) * pow2 (expo x)
      else - (of_int (round_even (- x / pow2 (expo (- x)))) * pow2 (expo (- x))))"

definition f64_of_int :: "int \<Rightarrow> float64" where
  "f64_of_int n = fl64 (of_int n)"

definition f64_mul :: "float64 \<Rightarrow> float64 \<Rightarrow> float64" where
  "f64_mul a b = fl64 (a * b)"

definition f64_div :: "float64 \<Rightarrow> float64 \<Rightarrow> float64" where
  "f64_div a b = fl64 (a / b)"

definition f64_sub :: "float64 \<Rightarrow> float64 \<Rightarrow> float64" where
  "f64_sub a b = fl64 (a - b)"

text \<open>\<open>math.Floor\<close> and \<open>math.Ceil\<close> are exact: their results are float64 values.\<close>

definition f64_floor :: "float64 \<Rightarrow> float64" where
  "f64_floor a = of_int \<lfloor>a\<rfloor>"

definition f64_ceil :: "float64 \<Rightarrow> float64" where
  "f64_ceil a = of_int \<lceil>a\<rceil>"

text \<open>The conversions \<open>int(f)\<close> and \<open>common.Fixed64(f)\<close> discard the fraction.\<close>

definition f64_to_int :: "float64 \<Rightarrow> int" where
  "f64_to_int a = (if 0 \<le> a then \<lfloor>a\<rfloor> else \<lceil>a\<rceil>)"

subsection \<open>Data model\<close>

text \<open>
  The fields of \<open>config.Params\<close> that the code reads. The two committee sizes are
  counts (\<open>int\<close> in Go, never negative in a configuration).
\<close>

record Params =
  CRCOnlyDPOSHeight :: uint32
  PublicDPOSHeight :: uint32
  PreConnectOffset :: uint32
  GeneralArbiters :: nat
  CandidateArbiters :: nat
  RewardPerBlock :: Fixed64
  CRCAddress :: Uint168

text \<open>
  A payload is known by its Go type and, for the three evidence types, by the value of
  its \<open>Hash()\<close>. A transaction carries its type tag, its payload and its fee.
\<close>

datatype payload =
    DPOSIllegalBlocks Uint256
  | DPOSIllegalProposals Uint256
  | InactiveArbitrators Uint256
  | OtherPayload

datatype TxType =
    CoinBase
  | TransferAsset
  | IllegalProposalEvidence
  | IllegalBlockEvidence
  | InactiveArbitratorsTx
  | OtherTx

record Transaction =
  TxType :: TxType
  Payload :: payload
  Fee :: Fixed64

record Block =
  Height :: uint32
  Transactions :: "Transaction list"

record Confirm =
  Sponsor :: bytes
  ViewOffset :: uint32
  Signers :: "bytes list"

record Producer =
  NodePublicKey :: bytes
  OwnerPublicKey :: bytes
  Votes :: Fixed64

datatype ChangeType = none | updateNext | normalChange

datatype error =
    ErrInsufficientProducer
  | ErrExpectIllegalBlocks
  | ErrInvalidPayloadType
  | ErrRewardLimit
  | ErrNoArbiters
  | ErrGetProducer
  | ErrExternal string

datatype panic =
    IndexOutOfRange
  | NilMapWrite
  | TypeAssertion
  | Raised error

text \<open>
  The outcome of a call: it returns (\<open>Ok\<close>), it returns a non-nil error (\<open>Err\<close>, with
  whatever the call had already written), or the goroutine panics.
\<close>

datatype 'a result = Ok 'a | Err error 'a | Panic panic

text \<open>
  The struct \<open>arbitrators\<close>. \<open>State\<close> stands for the two embedded structs \<open>*State\<close> and
  \<open>*degradation\<close>, whose code is in other files; the mutex, the \<open>started\<close> flag, the
  logging of \<open>DumpInfo\<close> and the event notifications have no effect on the fields and are
  left out. \<open>arbitersRoundReward\<close> is \<open>None\<close> when the Go map is nil; the other maps are
  made by \<open>NewArbitrators\<close> and never nil.
\<close>

record 'st arbitrators =
  State :: 'st
  chainParams :: Params
  dutyIndex :: int
  currentArbitrators :: "bytes list"
  currentCandidates :: "bytes list"
  currentOwnerProgramHashes :: "Uint168 list"
  candidateOwnerProgramHashes :: "Uint168 list"
  nextOwnerProgramHashes :: "Uint168 list"
  nextCandidateOwnerProgramHashes :: "Uint168 list"
  ownerVotesInRound :: "(Uint168, Fixed64) gomap"
  totalVotesInRound :: Fixed64
  nextArbitrators :: "bytes list"
  nextCandidates :: "bytes list"
  crcArbiters :: "bytes list"
  crcArbitratorsProgramHashes :: "(Uint168, unit) gomap"
  crcArbitratorsNodePublicKey :: "(string, Producer) gomap"
  accumulativeReward :: Fixed64
  finalRoundChange :: Fixed64
  clearingHeight :: uint32
  arbitersRoundReward :: "(Uint168, Fixed64) gomap option"
  illegalBlocksPayloadHashes :: "(Uint256, unit) gomap"

text \<open>
  What the code calls outside these files: the methods of \<open>State\<close> and \<open>degradation\<close>
  (functions of the embedded state), the host callbacks \<open>bestBlock\<close> and \<open>bestHeight\<close>,
  the two legacy committee rules, the address derivation of package \<open>contract\<close> and
  \<open>sort.Slice\<close> (not stable, so its result on ties is the library's). \<open>State\<close> holds
  the callback \<open>a.GetArbitrators\<close>; the two \<open>State\<close> methods that run outside the mutex
  take its result, the current arbitrators, as their first argument.
\<close>

record 'st deps =
  StateProcessBlock :: "bytes list \<Rightarrow> Block \<Rightarrow> Confirm option \<Rightarrow> 'st \<Rightarrow> 'st"
  StateProcessSpecialTxPayload :: "bytes list \<Rightarrow> payload \<Rightarrow> uint32 \<Rightarrow> 'st \<Rightarrow> 'st"
  AddInactivePayload :: "payload \<Rightarrow> 'st \<Rightarrow> bool \<times> 'st"
  InactiveModeSwitch :: "uint32 \<Rightarrow> 'st \<Rightarrow> (bool \<times> bool) \<times> 'st"
  LeaveEmergency :: "'st \<Rightarrow> 'st"
  TryLeaveUnderStaffed :: "'st \<Rightarrow> 'st"
  TrySetUnderstaffed :: "uint32 \<Rightarrow> 'st \<Rightarrow> 'st"
  IsInactiveMode :: "'st \<Rightarrow> bool"
  IsUnderstaffedMode :: "'st \<Rightarrow> bool"
  GetVotedProducers :: "'st \<Rightarrow> Producer list"
  GetProducer :: "bytes \<Rightarrow> 'st \<Rightarrow> Producer option"
  getNormalArbitratorsDescV1 :: "Params \<Rightarrow> error + bytes list"
  getNormalArbitratorsDescV0 :: "Params \<Rightarrow> error + bytes list"
  getNextOnDutyArbitratorV0 :: "uint32 \<Rightarrow> uint32 \<Rightarrow> bytes list \<Rightarrow> bytes option result"
  PublicKeyToStandardProgramHash :: "bytes \<Rightarrow> error + Uint168"
  sortSlice :: "(Producer \<Rightarrow> Producer \<Rightarrow> bool) \<Rightarrow> Producer list \<Rightarrow> Producer list"
  bestBlock :: "error + Block"
  bestHeight :: uint32

subsection \<open>The illegal-evidence table\<close>

text \<open>
  Modelled from the spec: \<open>Transaction.IsIllegalBlockTx\<close> is not in these files; an
  on-chain illegal-block transaction is one whose type tag is \<open>IllegalBlockEvidence\<close>.
\<close>

definition IsIllegalBlockTx :: "Transaction \<Rightarrow> bool" where
  "IsIllegalBlockTx tx = (TxType tx = IllegalBlockEvidence)"

text \<open>
  The loop over \<open>block.Transactions\<close>. The type assertion of \<open>tx.Payload\<close> to
  \<open>DPOSIllegalBlocks\<close> has no comma-ok form: it panics on a payload of another type.
\<close>

fun markFound :: "Transaction list \<Rightarrow> (Uint256, bool) gomap \<Rightarrow> (Uint256, bool) gomap result" where
  "markFound [] foundMap = Ok foundMap"
| "markFound (tx # txs) foundMap =
     (if IsIllegalBlockTx tx then
        (case Payload tx of
           DPOSIllegalBlocks h \<Rightarrow> markFound txs (gm_set h True foundMap)
         | _ \<Rightarrow> Panic TypeAssertion)
      else markFound txs foundMap)"

definition CheckDPOSIllegalTx :: "Block \<Rightarrow> 'st arbitrators \<Rightarrow> unit result" where
  "CheckDPOSIllegalTx block a =
     (let hashes = illegalBlocksPayloadHashes a
      in if length hashes = 0 then Ok ()
         else
           (let foundMap = foldl (\<lambda>m k. gm_set k False m) [] (map fst hashes)
            in case markFound (Transactions block) foundMap of
                 Ok found \<Rightarrow>
                   if list_ex (\<lambda>kv. \<not> snd kv) found then Err ErrExpectIllegalBlocks () else Ok ()
               | Err e _ \<Rightarrow> Err e ()
               | Panic p \<Rightarrow> Panic p))"

subsection \<open>Reward ledger\<close>

definition getBlockDPOSReward :: "Params \<Rightarrow> Block \<Rightarrow> Fixed64" where
  "getBlockDPOSReward params block =
     (let totalTxFx = foldl (\<lambda>total tx. total + Fee tx) 0 (Transactions block)
      in f64_to_int (f64_ceil (f64_mul (f64_of_int (totalTxFx + RewardPerBlock params))
                                        (fl64 (35 / 100)))))"

definition accumulateReward :: "Block \<Rightarrow> 'st arbitrators \<Rightarrow> 'st arbitrators" where
  "accumulateReward block a =
     (if Height block \<le> PublicDPOSHeight (chainParams a) then a
      else a\<lparr>accumulativeReward := accumulativeReward a + getBlockDPOSReward (chainParams a) block,
             arbitersRoundReward := None,
             finalRoundChange := 0\<rparr>)"

text \<open>A store into \<open>a.arbitersRoundReward\<close>; storing into a nil map panics.\<close>

definition storeRoundReward :: "Uint168 \<Rightarrow> Fixed64 \<Rightarrow> 'st arbitrators \<Rightarrow> 'st arbitrators option" where
  "storeRoundReward k v a =
     (case arbitersRoundReward a of
        None \<Rightarrow> None
      | Some m \<Rightarrow> Some (a\<lparr>arbitersRoundReward := Some (gm_set k v m)\<rparr>))"

definition loadRoundReward :: "Uint168 \<Rightarrow> 'st arbitrators \<Rightarrow> Fixed64" where
  "loadRoundReward k a = (case arbitersRoundReward a of None \<Rightarrow> 0 | Some m \<Rightarrow> gm_get0 m k)"

text \<open>The loop over \<open>ownerHashes\<close> in \<open>distributeWithNormalArbitrators\<close>.\<close>

fun payArbiters ::
  "Fixed64 \<Rightarrow> float64 \<Rightarrow> Uint168 list \<Rightarrow> Fixed64 \<Rightarrow> 'st arbitrators \<Rightarrow> (Fixed64 \<times> 'st arbitrators) result" where
  "payArbiters individualBlockConfirmReward rewardPerVote [] realDPOSReward a = Ok (realDPOSReward, a)"
| "payArbiters individualBlockConfirmReward rewardPerVote (ownerHash # rest) realDPOSReward a =
     (let votes = gm_get0 (ownerVotesInRound a) ownerHash;
          individualProducerReward = f64_to_int (f64_mul (f64_of_int votes) rewardPerVote);
          crc = (gm_get (crcArbitratorsProgramHashes a) ownerHash \<noteq> None);
          r = (if crc then individualBlockConfirmReward
               else individualBlockConfirmReward + individualProducerReward);
          stored = (if crc
                    then storeRoundReward (CRCAddress (chainParams a))
                           (loadRoundReward (CRCAddress (chainParams a)) a + r) a
                    else storeRoundReward ownerHash r a)
      in case stored of
           None \<Rightarrow> Panic NilMapWrite
         | Some a' \<Rightarrow> payArbiters individualBlockConfirmReward rewardPerVote rest (realDPOSReward + r) a')"

text \<open>The loop over \<open>candidateOwnerHashes\<close>.\<close>

fun payCandidates ::
  "float64 \<Rightarrow> Uint168 list \<Rightarrow> Fixed64 \<Rightarrow> 'st arbitrators \<Rightarrow> (Fixed64 \<times> 'st arbitrators) result" where
  "payCandidates rewardPerVote [] realDPOSReward a = Ok (realDPOSReward, a)"
| "payCandidates rewardPerVote (ownerHash # rest) realDPOSReward a =
     (let votes = gm_get0 (ownerVotesInRound a) ownerHash;
          individualProducerReward = f64_to_int (f64_mul (f64_of_int votes) rewardPerVote)
      in case storeRoundReward ownerHash individualProducerReward a of
           None \<Rightarrow> Panic NilMapWrite
         | Some a' \<Rightarrow> payCandidates rewardPerVote rest (realDPOSReward + individualProducerReward) a')"

definition distributeWithNormalArbitrators ::
  "Fixed64 \<Rightarrow> 'st arbitrators \<Rightarrow> (Fixed64 \<times> 'st arbitrators) result" where
  "distributeWithNormalArbitrators reward a =
     (let ownerHashes = currentOwnerProgramHashes a
      in if length ownerHashes = 0 then Err ErrNoArbiters (0, a)
         else
           (let totalBlockConfirmReward = f64_mul (f64_of_int reward) (fl64 (25 / 100));
                totalTopProducersReward = f64_sub (f64_of_int reward) totalBlockConfirmReward;
                individualBlockConfirmReward =
                  f64_to_int (f64_floor (f64_div totalBlockConfirmReward
                                                  (f64_of_int (int (length ownerHashes)))));
                totalVotesInRound = totalVotesInRound a
            in if totalVotesInRound = 0 then
                 (case storeRoundReward (CRCAddress (chainParams a)) reward a of
                    None \<Rightarrow> Panic NilMapWrite
                  | Some a' \<Rightarrow> Ok (0, a'))
               else
                 (let rewardPerVote = f64_div totalTopProducersReward (f64_of_int totalVotesInRound)
                  in case payArbiters individualBlockConfirmReward rewardPerVote ownerHashes 0 a of
                       Ok (realDPOSReward, a') \<Rightarrow>
                         payCandidates rewardPerVote (candidateOwnerProgramHashes a') realDPOSReward a'
                     | r \<Rightarrow> r)))"

definition distributeDPOSReward :: "Fixed64 \<Rightarrow> 'st arbitrators \<Rightarrow> 'st arbitrators result" where
  "distributeDPOSReward reward a =
     (let a0 = a\<lparr>arbitersRoundReward := Some (gm_set (CRCAddress (chainParams a)) 0 [])\<rparr>
      in case distributeWithNormalArbitrators reward a0 of
           Err e (_, a') \<Rightarrow> Err e a'
         | Panic p \<Rightarrow> Panic p
         | Ok (realDPOSReward, a') \<Rightarrow>
             (let change = reward - realDPOSReward
              in if change < 0 then Err ErrRewardLimit a'
                 else Ok (a'\<lparr>finalRoundChange := change\<rparr>)))"

definition clearingDPOSReward :: "Block \<Rightarrow> bool \<Rightarrow> 'st arbitrators \<Rightarrow> 'st arbitrators result" where
  "clearingDPOSReward block smoothClearing a =
     (if Height block = clearingHeight a then Ok a
      else
        (let dposReward = getBlockDPOSReward (chainParams a) block
         in if Height block + 1 \<le> PublicDPOSHeight (chainParams a)
            then Ok (a\<lparr>accumulativeReward := dposReward\<rparr>)
            else
              (let a1 = (if smoothClearing
                         then a\<lparr>accumulativeReward := accumulativeReward a + dposReward\<rparr> else a);
                   dposReward' = (if smoothClearing then 0 else dposReward)
               in case distributeDPOSReward (accumulativeReward a1) a1 of
                    Ok a2 \<Rightarrow> Ok (a2\<lparr>accumulativeReward := dposReward', clearingHeight := Height block\<rparr>)
                  | r \<Rightarrow> r)))"

definition GetArbitersRoundReward :: "'st arbitrators \<Rightarrow> (Uint168, Fixed64) gomap option" where
  "GetArbitersRoundReward a = arbitersRoundReward a"

definition GetFinalRoundChange :: "'st arbitrators \<Rightarrow> Fixed64" where
  "GetFinalRoundChange a = finalRoundChange a"

subsection \<open>Committee manager\<close>

definition getChangeType :: "uint32 \<Rightarrow> 'st arbitrators \<Rightarrow> ChangeType \<times> uint32" where
  "getChangeType height a =
     (let params = chainParams a
      in if height = CRCOnlyDPOSHeight params - PreConnectOffset params
           then (updateNext, CRCOnlyDPOSHeight params)
         else if height = CRCOnlyDPOSHeight params
           then (normalChange, CRCOnlyDPOSHeight params)
         else if height = PublicDPOSHeight params - PreConnectOffset params
           then (updateNext, PublicDPOSHeight params)
         else if height = PublicDPOSHeight params
           then (normalChange, PublicDPOSHeight params)
         else if PublicDPOSHeight params < height
                 \<and> dutyIndex a = int (length (currentArbitrators a)) - 1
           then (normalChange, height)
         else (none, height))"

text \<open>
  \<open>sort.Slice\<close> with \<open>bytes.Compare\<close> orders the keys lexicographically. It sorts in
  place, and \<open>a.currentArbitrators\<close> shares its array with \<open>a.nextArbitrators\<close>, so
  both read the sorted keys afterwards.
\<close>

definition changeCurrentArbitrators :: "'st arbitrators \<Rightarrow> 'st arbitrators result" where
  "changeCurrentArbitrators a =
     Ok (a\<lparr>currentArbitrators := sort (nextArbitrators a),
            nextArbitrators := sort (nextArbitrators a),
            currentCandidates := nextCandidates a,
            currentOwnerProgramHashes := nextOwnerProgramHashes a,
            candidateOwnerProgramHashes := nextCandidateOwnerProgramHashes a,
            dutyIndex := 0\<rparr>)"

text \<open>\<open>hex.EncodeToString\<close>: two lower-case hexadecimal digits for each byte.\<close>

definition hex_digit :: "nat \<Rightarrow> char" where
  "hex_digit n = ''0123456789abcdef'' ! n"

definition EncodeToString :: "bytes \<Rightarrow> string" where
  "EncodeToString bs =
     concat (map (\<lambda>b. [hex_digit (unat b div 16), hex_digit (unat b mod 16)]) bs)"

definition IsCRCArbitrator :: "bytes \<Rightarrow> 'st arbitrators \<Rightarrow> bool" where
  "IsCRCArbitrator pk a = (gm_get (crcArbitratorsNodePublicKey a) (EncodeToString pk) \<noteq> None)"

text \<open>The body shared by the two loops of \<open>snapshotVotesStates\<close>.\<close>

fun snapshotVotes :: "'st deps \<Rightarrow> bytes list \<Rightarrow> 'st arbitrators \<Rightarrow> 'st arbitrators result" where
  "snapshotVotes d [] a = Ok a"
| "snapshotVotes d (nodePublicKey # rest) a =
     (if IsCRCArbitrator nodePublicKey a then snapshotVotes d rest a
      else
        (case GetProducer d nodePublicKey (State a) of
           None \<Rightarrow> Err ErrGetProducer a
         | Some producer \<Rightarrow>
             (case PublicKeyToStandardProgramHash d (OwnerPublicKey producer) of
                Inl e \<Rightarrow> Err e a
              | Inr programHash \<Rightarrow>
                  snapshotVotes d rest
                    (a\<lparr>ownerVotesInRound := gm_set programHash (Votes producer) (ownerVotesInRound a),
                       totalVotesInRound := totalVotesInRound a + Votes producer\<rparr>))))"

definition snapshotVotesStates :: "'st deps \<Rightarrow> 'st arbitrators \<Rightarrow> 'st arbitrators result" where
  "snapshotVotesStates d a =
     (case snapshotVotes d (nextArbitrators a) (a\<lparr>ownerVotesInRound := [], totalVotesInRound := 0\<rparr>) of
        Ok a1 \<Rightarrow> snapshotVotes d (nextCandidates a1) a1
      | r \<Rightarrow> r)"

text \<open>The two loops of \<open>updateNextOwnerProgramHashes\<close>.\<close>

fun nextOwnerHashes :: "'st deps \<Rightarrow> bytes list \<Rightarrow> 'st arbitrators \<Rightarrow> 'st arbitrators result" where
  "nextOwnerHashes d [] a = Ok a"
| "nextOwnerHashes d (nodePublicKey # rest) a =
     (if IsCRCArbitrator nodePublicKey a then
        (case PublicKeyToStandardProgramHash d nodePublicKey of
           Inl e \<Rightarrow> Err e a
         | Inr programHash \<Rightarrow>
             nextOwnerHashes d rest
               (a\<lparr>nextOwnerProgramHashes := nextOwnerProgramHashes a @ [programHash]\<rparr>))
      else
        (case GetProducer d nodePublicKey (State a) of
           None \<Rightarrow> Err ErrGetProducer a
         | Some producer \<Rightarrow>
             (case PublicKeyToStandardProgramHash d (OwnerPublicKey producer) of
                Inl e \<Rightarrow> Err e a
              | Inr programHash \<Rightarrow>
                  nextOwnerHashes d rest
                    (a\<lparr>nextOwnerProgramHashes := nextOwnerProgramHashes a @ [programHash]\<rparr>))))"

fun nextCandidateHashes :: "'st deps \<Rightarrow> bytes list \<Rightarrow> 'st arbitrators \<Rightarrow> 'st arbitrators result" where
  "nextCandidateHashes d [] a = Ok a"
| "nextCandidateHashes d (nodePublicKey # rest) a =
     (if IsCRCArbitrator nodePublicKey a then nextCandidateHashes d rest a
      else
        (case GetProducer d nodePublicKey (State a) of
           None \<Rightarrow> Err ErrGetProducer a
         | Some producer \<Rightarrow>
             (case PublicKeyToStandardProgramHash d (OwnerPublicKey producer) of
                Inl e \<Rightarrow> Err e a
              | Inr programHash \<Rightarrow>
                  nextCandidateHashes d rest
                    (a\<lparr>nextCandidateOwnerProgramHashes :=
                         nextCandidateOwnerProgramHashes a @ [programHash]\<rparr>))))"

definition updateNextOwnerProgramHashes :: "'st deps \<Rightarrow> 'st arbitrators \<Rightarrow> 'st arbitrators result" where
  "updateNextOwnerProgramHashes d a =
     (case nextOwnerHashes d (nextArbitrators a) (a\<lparr>nextOwnerProgramHashes := []\<rparr>) of
        Ok a1 \<Rightarrow> nextCandidateHashes d (nextCandidates a1) (a1\<lparr>nextCandidateOwnerProgramHashes := []\<rparr>)
      | r \<Rightarrow> r)"

definition GetNormalArbitratorsDesc ::
  "'st deps \<Rightarrow> uint32 \<Rightarrow> nat \<Rightarrow> Producer list \<Rightarrow> 'st arbitrators \<Rightarrow> error + bytes list" where
  "GetNormalArbitratorsDesc d height arbitratorsCount producers a =
     (if PublicDPOSHeight (chainParams a) \<le> height then
        (if length producers < arbitratorsCount then Inl ErrInsufficientProducer
         else Inr (map NodePublicKey (take arbitratorsCount producers)))
      else if CRCOnlyDPOSHeight (chainParams a) \<le> height
        then getNormalArbitratorsDescV1 d (chainParams a)
      else getNormalArbitratorsDescV0 d (chainParams a))"

definition GetCandidatesDesc ::
  "'st deps \<Rightarrow> uint32 \<Rightarrow> nat \<Rightarrow> Producer list \<Rightarrow> 'st arbitrators \<Rightarrow> error + bytes list" where
  "GetCandidatesDesc d height startIndex producers a =
     (if PublicDPOSHeight (chainParams a) \<le> height then
        (if length producers < startIndex then Inr []
         else
           (let sorted = sortSlice d (\<lambda>p q. Votes q < Votes p) producers
            in Inr (map NodePublicKey
                      (take (CandidateArbiters (chainParams a)) (drop startIndex sorted)))))
      else Inr [])"

definition tryHandleError :: "'st deps \<Rightarrow> uint32 \<Rightarrow> error \<Rightarrow> 'st arbitrators \<Rightarrow> 'st arbitrators result" where
  "tryHandleError d height err a =
     (if err = ErrInsufficientProducer
      then Ok (a\<lparr>State := TrySetUnderstaffed d height (State a)\<rparr>)
      else Err err a)"

text \<open>The tail of \<open>updateNextArbitrators\<close>, reached on every path that sets \<open>nextCandidates\<close>.\<close>

definition snapshotAndHashes :: "'st deps \<Rightarrow> 'st arbitrators \<Rightarrow> 'st arbitrators result" where
  "snapshotAndHashes d a =
     (case snapshotVotesStates d a of
        Ok a1 \<Rightarrow> updateNextOwnerProgramHashes d a1
      | r \<Rightarrow> r)"

definition updateNextArbitrators :: "'st deps \<Rightarrow> uint32 \<Rightarrow> 'st arbitrators \<Rightarrow> 'st arbitrators result" where
  "updateNextArbitrators d height a =
     (let switched = InactiveModeSwitch d height (State a);
          recover = snd (fst switched);
          s = (if recover then LeaveEmergency d (snd switched)
               else TryLeaveUnderStaffed d (snd switched));
          a1 = a\<lparr>State := s,
                 nextArbitrators := map (\<lambda>kv. NodePublicKey (snd kv)) (crcArbitratorsNodePublicKey a)\<rparr>
      in if \<not> IsInactiveMode d s \<and> \<not> IsUnderstaffedMode d s then
           (let count = GeneralArbiters (chainParams a1);
                votedProducers =
                  sortSlice d
                    (\<lambda>p q. if Votes p = Votes q then NodePublicKey p < NodePublicKey q
                           else Votes q < Votes p)
                    (GetVotedProducers d s)
            in case GetNormalArbitratorsDesc d height count votedProducers a1 of
                 Inl err \<Rightarrow>
                   (case tryHandleError d height err a1 of
                      Ok a2 \<Rightarrow> snapshotAndHashes d (a2\<lparr>nextCandidates := []\<rparr>)
                    | r \<Rightarrow> r)
               | Inr producers \<Rightarrow>
                   (let a2 = a1\<lparr>nextArbitrators := nextArbitrators a1 @ producers\<rparr>
                    in case GetCandidatesDesc d height count votedProducers a2 of
                         Inl err \<Rightarrow> Err err a2
                       | Inr candidates \<Rightarrow> snapshotAndHashes d (a2\<lparr>nextCandidates := candidates\<rparr>)))
         else snapshotAndHashes d (a1\<lparr>nextCandidates := []\<rparr>))"

definition NormalChange :: "'st deps \<Rightarrow> uint32 \<Rightarrow> 'st arbitrators \<Rightarrow> 'st arbitrators result" where
  "NormalChange d height a =
     (case changeCurrentArbitrators a of
        Ok a1 \<Rightarrow> updateNextArbitrators d (height + 1) a1
      | r \<Rightarrow> r)"

definition ForceChange :: "'st deps \<Rightarrow> uint32 \<Rightarrow> 'st arbitrators \<Rightarrow> 'st arbitrators result" where
  "ForceChange d height a =
     (case bestBlock d of
        Inl err \<Rightarrow> Err err a
      | Inr block \<Rightarrow>
          (case clearingDPOSReward block False a of
             Ok a1 \<Rightarrow>
               (case updateNextArbitrators d (height + 1) a1 of
                  Ok a2 \<Rightarrow> changeCurrentArbitrators a2
                | r \<Rightarrow> r)
           | r \<Rightarrow> r))"

text \<open>\<open>IncreaseChainHeight\<close> panics when a step returns an error.\<close>

definition IncreaseChainHeight :: "'st deps \<Rightarrow> Block \<Rightarrow> 'st arbitrators \<Rightarrow> 'st arbitrators result" where
  "IncreaseChainHeight d block a =
     (let changed =
        (case getChangeType (Height block + 1) a of
           (updateNext, versionHeight) \<Rightarrow>
             (case updateNextArbitrators d versionHeight a of
                Err e _ \<Rightarrow> Panic (Raised e)
              | r \<Rightarrow> r)
         | (normalChange, versionHeight) \<Rightarrow>
             (case clearingDPOSReward block True a of
                Err e _ \<Rightarrow> Panic (Raised e)
              | Panic p \<Rightarrow> Panic p
              | Ok a1 \<Rightarrow>
                  (case NormalChange d (Height block) a1 of
                     Err e _ \<Rightarrow> Panic (Raised e)
                   | r \<Rightarrow> r))
         | (none, versionHeight) \<Rightarrow>
             (let a1 = accumulateReward block a
              in Ok (a1\<lparr>dutyIndex := dutyIndex a1 + 1\<rparr>)))
      in case changed of
           Ok a2 \<Rightarrow> Ok (a2\<lparr>illegalBlocksPayloadHashes := []\<rparr>)
         | r \<Rightarrow> r)"

definition ProcessBlock ::
  "'st deps \<Rightarrow> Block \<Rightarrow> Confirm option \<Rightarrow> 'st arbitrators \<Rightarrow> 'st arbitrators result" where
  "ProcessBlock d block confirm a =
     IncreaseChainHeight d block
       (a\<lparr>State := StateProcessBlock d (currentArbitrators a) block confirm (State a)\<rparr>)"

definition ProcessSpecialTxPayload ::
  "'st deps \<Rightarrow> payload \<Rightarrow> uint32 \<Rightarrow> 'st arbitrators \<Rightarrow> 'st arbitrators result" where
  "ProcessSpecialTxPayload d p height a =
     (case p of
        DPOSIllegalBlocks h \<Rightarrow>
          (let a1 = a\<lparr>illegalBlocksPayloadHashes := gm_set h () (illegalBlocksPayloadHashes a)\<rparr>
           in ForceChange d height
                (a1\<lparr>State := StateProcessSpecialTxPayload d (currentArbitrators a1) p height (State a1)\<rparr>))
      | InactiveArbitrators h \<Rightarrow>
          (case AddInactivePayload d p (State a) of
             (False, s) \<Rightarrow> Ok (a\<lparr>State := s\<rparr>)
           | (True, s) \<Rightarrow>
               ForceChange d height
                 (a\<lparr>State := StateProcessSpecialTxPayload d (currentArbitrators a) p height s\<rparr>))
      | _ \<Rightarrow> Err ErrInvalidPayloadType a)"

subsection \<open>Duty lookup and majority\<close>

definition GetNextOnDutyArbitratorV ::
  "'st deps \<Rightarrow> uint32 \<Rightarrow> uint32 \<Rightarrow> 'st arbitrators \<Rightarrow> bytes option result" where
  "GetNextOnDutyArbitratorV d height offset a =
     (if CRCOnlyDPOSHeight (chainParams a) \<le> height then
        (let arbitrators = currentArbitrators a
         in if length arbitrators = 0 then Ok None
            else
              (let index = go_rem (dutyIndex a + uint offset) (int (length arbitrators))
               in if 0 \<le> index \<and> index < int (length arbitrators)
                  then Ok (Some (arbitrators ! nat index))
                  else Panic IndexOutOfRange))
      else getNextOnDutyArbitratorV0 d height offset (currentArbitrators a))"

definition GetOnDutyArbitrator :: "'st deps \<Rightarrow> 'st arbitrators \<Rightarrow> bytes option result" where
  "GetOnDutyArbitrator d a = GetNextOnDutyArbitratorV d (bestHeight d + 1) 0 a"

definition GetNextOnDutyArbitrator :: "'st deps \<Rightarrow> uint32 \<Rightarrow> 'st arbitrators \<Rightarrow> bytes option result" where
  "GetNextOnDutyArbitrator d offset a = GetNextOnDutyArbitratorV d (bestHeight d + 1) offset a"

definition GetArbitersCount :: "'st arbitrators \<Rightarrow> int" where
  "GetArbitersCount a = int (length (currentArbitrators a))"

definition GetArbitersMajorityCount :: "'st arbitrators \<Rightarrow> int" where
  "GetArbitersMajorityCount a =
     f64_to_int (f64_div (f64_mul (f64_of_int (int (length (currentArbitrators a)))) 2) 3)"

definition HasArbitersMajorityCount :: "int \<Rightarrow> 'st arbitrators \<Rightarrow> bool" where
  "HasArbitersMajorityCount num a = (GetArbitersMajorityCount a < num)"

definition HasArbitersMinorityCount :: "int \<Rightarrow> 'st arbitrators \<Rightarrow> bool" where
  "HasArbitersMinorityCount num a =
     (let count = int (length (currentArbitrators a))
      in count - GetArbitersMajorityCount a \<le> num)"

subsection \<open>View-change countdown\<close>

text \<open>
  \<open>ViewChangesCountDown\<close> with what its three collaborators return: the dispatcher's
  \<open>CurrentHeight()\<close> and \<open>cfg.ChainParams.PublicDPOSHeight\<close>, the consensus'
  \<open>GetViewOffset()\<close> and the arbitrators' \<open>GetArbitersCount()\<close>.
\<close>

record ViewChangesCountDown =
  CurrentHeight :: uint32
  cfgPublicDPOSHeight :: uint32
  GetViewOffset :: uint32
  arbitersCount :: int
  timeoutRefactor :: uint32
  inactiveArbitratorsEliminated :: bool

definition firstTimeoutFactor :: uint32 where
  "firstTimeoutFactor = 1"

definition othersTimeoutFactor :: uint32 where
  "othersTimeoutFactor = 240"

definition Reset :: "ViewChangesCountDown \<Rightarrow> ViewChangesCountDown" where
  "Reset c = c\<lparr>inactiveArbitratorsEliminated := False, timeoutRefactor := 0\<rparr>"

definition SetEliminated :: "ViewChangesCountDown \<Rightarrow> ViewChangesCountDown" where
  "SetEliminated c =
     (let c1 = c\<lparr>inactiveArbitratorsEliminated := True\<rparr>
      in if timeoutRefactor c1 = 0
         then c1\<lparr>timeoutRefactor := timeoutRefactor c1 + firstTimeoutFactor\<rparr>
         else c1\<lparr>timeoutRefactor := timeoutRefactor c1 + othersTimeoutFactor\<rparr>)"

definition IsTimeOut :: "ViewChangesCountDown \<Rightarrow> bool" where
  "IsTimeOut c =
     (if CurrentHeight c \<le> cfgPublicDPOSHeight c \<or> timeoutRefactor c = 0 then False
      else word_of_int (arbitersCount c) * timeoutRefactor c \<le> GetViewOffset c)"

text \<open>The value a call leaves behind when it returns, with or without an error.\<close>

fun stateOf :: "'a result \<Rightarrow> 'a option" where
  "stateOf (Ok x) = Some x"
| "stateOf (Err e x) = Some x"
| "stateOf (Panic p) = None"

fun isOk :: "'a result \<Rightarrow> bool" where
  "isOk (Ok x) = True"
| "isOk (Err e x) = False"
| "isOk (Panic p) = False"

subsection \<open>The specification's wording\<close>

text \<open>
  The rotation schedule as the specification lists it (section 4.4): five conditions on
  the next height, read from the top, the first one that holds decides; where the
  specification names a version height it is the second component.
\<close>

definition rotationSchedule ::
  "Params \<Rightarrow> int \<Rightarrow> nat \<Rightarrow> uint32 \<Rightarrow> ChangeType \<times> uint32 option" where
  "rotationSchedule params duty committeeSize next =
     (case find fst
        [(next = CRCOnlyDPOSHeight params - PreConnectOffset params,
            (updateNext, Some (CRCOnlyDPOSHeight params))),
         (next = CRCOnlyDPOSHeight params,
            (normalChange, Some (CRCOnlyDPOSHeight params))),
         (next = PublicDPOSHeight params - PreConnectOffset params,
            (updateNext, Some (PublicDPOSHeight params))),
         (next = PublicDPOSHeight params,
            (normalChange, Some (PublicDPOSHeight params))),
         (PublicDPOSHeight params < next \<and> duty = int committeeSize - 1,
            (normalChange, None))] of
        Some rule \<Rightarrow> snd rule
      | None \<Rightarrow> (none, None))"

text \<open>The payload hashes of the illegal-block transactions of a block.\<close>

definition illegalTxHashes :: "Transaction list \<Rightarrow> Uint256 list" where
  "illegalTxHashes txs =
     concat (map (\<lambda>tx. if IsIllegalBlockTx tx
                        then (case Payload tx of DPOSIllegalBlocks h \<Rightarrow> [h] | _ \<Rightarrow> [])
                        else [])
                 txs)"

definition illegalBlockHashes :: "Block \<Rightarrow> Uint256 list" where
  "illegalBlockHashes block = illegalTxHashes (Transactions block)"

text \<open>Every illegal-block transaction of the block carries a payload of its own type.\<close>

definition wellTyped :: "Block \<Rightarrow> bool" where
  "wellTyped block =
     list_all (\<lambda>tx. IsIllegalBlockTx tx \<longrightarrow> (case Payload tx of DPOSIllegalBlocks h \<Rightarrow> True | _ \<Rightarrow> False))
              (Transactions block)"

text \<open>
  The owner hashes that get a ledger entry of their own in a settlement: the current
  owners outside the CRC set, then the candidates.
\<close>

definition ledgerHashes :: "'st arbitrators \<Rightarrow> Uint168 list" where
  "ledgerHashes a =
     filter (\<lambda>h. gm_get (crcArbitratorsProgramHashes a) h = None) (currentOwnerProgramHashes a)
     @ candidateOwnerProgramHashes a"


subsection \<open>Example configuration and states\<close>

text \<open>Concrete inputs at which the properties below are evaluated.\<close>

definition exParams :: Params where
  "exParams = \<lparr>CRCOnlyDPOSHeight = 100, PublicDPOSHeight = 200, PreConnectOffset = 10,
                GeneralArbiters = 3, CandidateArbiters = 1, RewardPerBlock = 500,
                CRCAddress = [9]\<rparr>"

definition exProducers :: "Producer list" where
  "exProducers =
     [\<lparr>NodePublicKey = [3], OwnerPublicKey = [3], Votes = 60\<rparr>,
      \<lparr>NodePublicKey = [4], OwnerPublicKey = [4], Votes = 30\<rparr>,
      \<lparr>NodePublicKey = [5], OwnerPublicKey = [5], Votes = 10\<rparr>,
      \<lparr>NodePublicKey = [6], OwnerPublicKey = [6], Votes = 0\<rparr>]"

definition exArbiters :: "unit arbitrators" where
  "exArbiters =
     \<lparr>State = (), chainParams = exParams, dutyIndex = 1,
      currentArbitrators = [[1], [2], [3], [4], [5]],
      currentCandidates = [[6]],
      currentOwnerProgramHashes = [[11], [12], [13], [14], [15]],
      candidateOwnerProgramHashes = [[16]],
      nextOwnerProgramHashes = [[11], [12], [13], [14], [15]],
      nextCandidateOwnerProgramHashes = [[16]],
      ownerVotesInRound = [([13], 60), ([14], 30), ([15], 10), ([16], 0)],
      totalVotesInRound = 100,
      nextArbitrators = [[5], [4], [3], [2], [1]],
      nextCandidates = [[6]],
      crcArbiters = [[1], [2]],
      crcArbitratorsProgramHashes = [([11], ()), ([12], ())],
      crcArbitratorsNodePublicKey =
        [(''01'', \<lparr>NodePublicKey = [1], OwnerPublicKey = [1], Votes = 0\<rparr>),
         (''02'', \<lparr>NodePublicKey = [2], OwnerPublicKey = [2], Votes = 0\<rparr>)],
      accumulativeReward = 1000, finalRoundChange = 7, clearingHeight = 0,
      arbitersRoundReward = Some [([9], 5)],
      illegalBlocksPayloadHashes = []\<rparr>"

fun exInsert :: "('a \<Rightarrow> 'a \<Rightarrow> bool) \<Rightarrow> 'a \<Rightarrow> 'a list \<Rightarrow> 'a list" where
  "exInsert lt x [] = [x]"
| "exInsert lt x (y # ys) = (if lt y x then y # exInsert lt x ys else x # y # ys)"

definition exSort :: "('a \<Rightarrow> 'a \<Rightarrow> bool) \<Rightarrow> 'a list \<Rightarrow> 'a list" where
  "exSort lt xs = foldr (exInsert lt) xs []"

definition exBlock :: "uint32 \<Rightarrow> Fixed64 list \<Rightarrow> Block" where
  "exBlock h fees =
     \<lparr>Height = h,
      Transactions = map (\<lambda>f. \<lparr>TxType = TransferAsset, Payload = OtherPayload, Fee = f\<rparr>) fees\<rparr>"

definition exDeps :: "unit deps" where
  "exDeps =
     \<lparr>StateProcessBlock = (\<lambda>arbiters block confirm s. s),
      StateProcessSpecialTxPayload = (\<lambda>arbiters p height s. s),
      AddInactivePayload = (\<lambda>p s. (True, s)),
      InactiveModeSwitch = (\<lambda>height s. ((False, False), s)),
      LeaveEmergency = (\<lambda>s. s),
      TryLeaveUnderStaffed = (\<lambda>s. s),
      TrySetUnderstaffed = (\<lambda>height s. s),
      IsInactiveMode = (\<lambda>s. False),
      IsUnderstaffedMode = (\<lambda>s. False),
      GetVotedProducers = (\<lambda>s. exProducers),
      GetProducer = (\<lambda>pk s. find (\<lambda>p. NodePublicKey p = pk) exProducers),
      getNormalArbitratorsDescV1 = (\<lambda>params. Inr []),
      getNormalArbitratorsDescV0 = (\<lambda>params. Inr []),
      getNextOnDutyArbitratorV0 = (\<lambda>height offset arbiters. Ok None),
      PublicKeyToStandardProgramHash = (\<lambda>pk. Inr (map (\<lambda>b. b + 10) pk)),
      sortSlice = exSort,
      bestBlock = Inr (exBlock 250 [100]),
      bestHeight = 250\<rparr>"

definition exEvidenceBlock :: Block where
  "exEvidenceBlock =
     \<lparr>Height = 251,
      Transactions =
        [\<lparr>TxType = TransferAsset, Payload = OtherPayload, Fee = 100\<rparr>,
         \<lparr>TxType = IllegalBlockEvidence, Payload = DPOSIllegalBlocks [7], Fee = 0\<rparr>]\<rparr>"

definition exCountDown :: ViewChangesCountDown where
  "exCountDown =
     \<lparr>CurrentHeight = 201, cfgPublicDPOSHeight = 200, GetViewOffset = 0, arbitersCount = 5,
      timeoutRefactor = 0, inactiveArbitratorsEliminated = False\<rparr>"

section \<open>Properties\<close>

subsection \<open>Rounding to float64\<close>

lemma pow2_pos: "0 < pow2 e"
  by (simp add: pow2_def)

lemma pow2_add: "pow2 (a + b) = pow2 a * pow2 b"
  by (simp add: pow2_def power_int_add)

lemma pow2_nat: "0 \<le> e \<Longrightarrow> pow2 e = 2 ^ nat e"
  by (simp add: pow2_def power_int_def)

lemma pow2_minus: "pow2 (- e) = 1 / pow2 e"
  by (simp add: pow2_def power_int_minus_divide)

lemma round_even_err: "\<bar>of_int (round_even s) - s\<bar> \<le> 1 / 2"
proof -
  have "of_int \<lfloor>s\<rfloor> \<le> s" "s < of_int \<lfloor>s\<rfloor> + 1" by linarith+
  then show ?thesis
    unfolding round_even_def Let_def by (simp split: if_splits)
qed

lemma round_even_le: "s \<le> of_int N \<Longrightarrow> round_even s \<le> N"
  unfolding round_even_def Let_def
  by (auto simp: floor_le_iff; linarith)

lemma round_even_ge: "of_int N \<le> s \<Longrightarrow> N \<le> round_even s"
  unfolding round_even_def Let_def
  by (auto simp: le_floor_iff; linarith)

lemma rat_bitlen_bounds:
  assumes "1 \<le> (x::rat)"
  shows "pow2 (bitlen \<lfloor>x\<rfloor> - 1) \<le> x" and "x < pow2 (bitlen \<lfloor>x\<rfloor>)"
proof -
  let ?n = "\<lfloor>x\<rfloor>"
  have pos: "0 < ?n" using assms by linarith
  have b1: "1 \<le> bitlen ?n" using pos bitlen_eq_zero_iff[of ?n] bitlen_nonneg[of ?n] by linarith
  from bitlen_bounds[OF pos] have lo: "2 ^ nat (bitlen ?n - 1) \<le> ?n" and hi: "?n < 2 ^ nat (bitlen ?n)"
    by auto
  have "(of_int (2 ^ nat (bitlen ?n - 1)) :: rat) \<le> of_int ?n"
    using lo of_int_le_iff by blast
  also have "\<dots> \<le> x" by simp
  finally show "pow2 (bitlen ?n - 1) \<le> x"
    using b1 by (simp add: pow2_nat)
  have "?n + 1 \<le> 2 ^ nat (bitlen ?n)" using hi by simp
  then have "(of_int (?n + 1) :: rat) \<le> of_int (2 ^ nat (bitlen ?n))"
    using of_int_le_iff by blast
  moreover have "x < of_int (?n + 1)" by linarith
  ultimately show "x < pow2 (bitlen ?n)"
    using b1 by (simp add: pow2_nat)
qed

lemma expo_bounds:
  assumes "0 < x"
  shows "2 ^ 52 \<le> x / pow2 (expo x)" and "x / pow2 (expo x) \<le> 2 ^ 53"
proof -
  have p52: "pow2 52 = 2 ^ 52" and p53: "pow2 53 = 2 ^ 53" by (simp_all add: pow2_def)
  show "2 ^ 52 \<le> x / pow2 (expo x)"
  proof (cases "1 \<le> x")
    case True
    then have e: "expo x = bitlen \<lfloor>x\<rfloor> - 53" by (simp add: expo_def)
    have "pow2 (bitlen \<lfloor>x\<rfloor> - 1) = pow2 52 * pow2 (expo x)"
      unfolding e by (simp flip: pow2_add)
    with rat_bitlen_bounds(1)[OF True] have "2 ^ 52 * pow2 (expo x) \<le> x" by (simp add: p52)
    then show ?thesis using pow2_pos[of "expo x"] by (simp add: pos_le_divide_eq)
  next
    case False
    then have e: "expo x = - bitlen \<lfloor>1 / x\<rfloor> - 52" by (simp add: expo_def)
    have inv: "1 \<le> 1 / x" using assms False by simp
    have "pow2 (bitlen \<lfloor>1 / x\<rfloor>) * (pow2 52 * pow2 (expo x))
            = pow2 (bitlen \<lfloor>1 / x\<rfloor> + (52 + expo x))"
      by (simp only: pow2_add)
    also have "\<dots> = 1" unfolding e by (simp add: pow2_def)
    finally have prod: "pow2 (bitlen \<lfloor>1 / x\<rfloor>) * (pow2 52 * pow2 (expo x)) = 1" .
    define B where "B = pow2 (bitlen \<lfloor>1 / x\<rfloor>)"
    define E where "E = pow2 52 * pow2 (expo x)"
    have Bpos: "0 < B" and Epos: "0 < E" by (simp_all add: B_def E_def pow2_pos)
    have BE: "B * E = 1" using prod by (simp add: B_def E_def)
    from rat_bitlen_bounds(2)[OF inv] have "1 / x < B" by (simp add: B_def)
    then have "1 < B * x"
      using assms by (simp add: pos_divide_less_eq)
    then have "E * 1 < E * (B * x)" using Epos by (simp only: mult_less_cancel_left_pos)
    also have "\<dots> = (B * E) * x" by (simp add: mult_ac)
    finally have "E < x" by (simp add: BE)
    then have "2 ^ 52 * pow2 (expo x) \<le> x" by (simp add: E_def p52)
    then show ?thesis using pow2_pos[of "expo x"] by (simp add: pos_le_divide_eq)
  qed
  show "x / pow2 (expo x) \<le> 2 ^ 53"
  proof (cases "1 \<le> x")
    case True
    then have e: "expo x = bitlen \<lfloor>x\<rfloor> - 53" by (simp add: expo_def)
    have "pow2 (bitlen \<lfloor>x\<rfloor>) = pow2 53 * pow2 (expo x)"
      unfolding e by (simp flip: pow2_add)
    with rat_bitlen_bounds(2)[OF True] have "x \<le> 2 ^ 53 * pow2 (expo x)" by (simp add: p53)
    then show ?thesis using pow2_pos[of "expo x"] by (simp add: pos_divide_le_eq)
  next
    case False
    then have e: "expo x = - bitlen \<lfloor>1 / x\<rfloor> - 52" by (simp add: expo_def)
    have inv: "1 \<le> 1 / x" using assms False by simp
    have "pow2 (bitlen \<lfloor>1 / x\<rfloor> - 1) * (pow2 53 * pow2 (expo x))
            = pow2 (bitlen \<lfloor>1 / x\<rfloor> - 1 + (53 + expo x))"
      by (simp only: pow2_add)
    also have "\<dots> = 1" unfolding e by (simp add: pow2_def)
    finally have prod: "pow2 (bitlen \<lfloor>1 / x\<rfloor> - 1) * (pow2 53 * pow2 (expo x)) = 1" .
    define B where "B = pow2 (bitlen \<lfloor>1 / x\<rfloor> - 1)"
    define E where "E = pow2 53 * pow2 (expo x)"
    have Bpos: "0 < B" and Epos: "0 < E" by (simp_all add: B_def E_def pow2_pos)
    have BE: "B * E = 1" using prod by (simp add: B_def E_def)
    from rat_bitlen_bounds(1)[OF inv] have "B \<le> 1 / x" by (simp add: B_def)
    then have "B * x \<le> 1"
      using assms by (simp add: pos_le_divide_eq)
    then have "E * (B * x) \<le> E * 1" using Epos by (simp only: mult_le_cancel_left_pos)
    moreover have "E * (B * x) = (B * E) * x" by (simp add: mult_ac)
    ultimately have "x \<le> E" by (simp add: BE)
    then have "x \<le> 2 ^ 53 * pow2 (expo x)" by (simp add: E_def p53)
    then show ?thesis using pow2_pos[of "expo x"] by (simp add: pos_divide_le_eq)
  qed
qed

lemma fl64_neg: "fl64 (- x) = - fl64 x"
  by (simp add: fl64_def)

lemma fl64_error:
  assumes "0 < x"
  shows "\<bar>fl64 x - x\<bar> \<le> x / 2 ^ 53"
proof -
  define e where "e = expo x"
  define s where "s = x / pow2 e"
  have epos: "0 < pow2 e" by (rule pow2_pos)
  have xs: "x = s * pow2 e" using epos by (simp add: s_def)
  have "fl64 x = of_int (round_even s) * pow2 e"
    using assms by (simp add: fl64_def s_def e_def)
  then have "fl64 x - x = (of_int (round_even s) - s) * pow2 e"
    using xs by (simp add: algebra_simps)
  then have "\<bar>fl64 x - x\<bar> = \<bar>of_int (round_even s) - s\<bar> * pow2 e"
    using epos by (simp add: abs_mult)
  also have "\<dots> \<le> (1 / 2) * pow2 e"
    using round_even_err[of s] epos by (simp only: mult_le_cancel_right_pos)
  also have "\<dots> \<le> x / 2 ^ 53"
  proof -
    have "2 ^ 52 \<le> s" using expo_bounds(1)[OF assms] by (simp add: s_def e_def)
    then have "2 ^ 52 * pow2 e \<le> s * pow2 e" using epos by (simp only: mult_le_cancel_right_pos)
    then show ?thesis using xs by simp
  qed
  finally show ?thesis .
qed

lemma expo_nonpos:
  assumes "0 < x" "x < 2 ^ 53"
  shows "expo x \<le> 0"
proof (cases "1 \<le> x")
  case True
  have lt: "pow2 (bitlen \<lfloor>x\<rfloor> - 1) < 2 ^ 53"
    using rat_bitlen_bounds(1)[OF True] assms(2) by simp
  have "bitlen \<lfloor>x\<rfloor> - 1 < 53"
  proof (rule ccontr)
    assume "\<not> bitlen \<lfloor>x\<rfloor> - 1 < 53"
    then have ge: "53 \<le> nat (bitlen \<lfloor>x\<rfloor> - 1)" and nn: "0 \<le> bitlen \<lfloor>x\<rfloor> - 1" by simp_all
    have "(2::rat) ^ 53 \<le> 2 ^ nat (bitlen \<lfloor>x\<rfloor> - 1)"
      using ge by (intro power_increasing) simp_all
    then show False using lt pow2_nat[OF nn] by simp
  qed
  then show ?thesis using True by (simp add: expo_def)
next
  case False
  then show ?thesis using bitlen_nonneg[of "\<lfloor>1 / x\<rfloor>"] by (simp add: expo_def)
qed

lemma int_div_pow2:
  assumes "e \<le> 0"
  shows "of_int N / pow2 e = of_int (N * 2 ^ nat (- e))"
proof -
  have "pow2 e = 1 / pow2 (- e)" using pow2_minus[of "- e"] by simp
  also have "pow2 (- e) = 2 ^ nat (- e)" using assms by (simp add: pow2_nat)
  finally show ?thesis by simp
qed

lemma fl64_le_int:
  assumes "0 < x" "x < 2 ^ 53" "x \<le> of_int N"
  shows "fl64 x \<le> of_int N"
proof -
  define e where "e = expo x"
  have epos: "0 < pow2 e" by (rule pow2_pos)
  have e0: "e \<le> 0" using expo_nonpos[OF assms(1,2)] by (simp add: e_def)
  have "x / pow2 e \<le> of_int N / pow2 e"
    using assms(3) epos by (simp add: divide_le_cancel)
  then have "round_even (x / pow2 e) \<le> N * 2 ^ nat (- e)"
    unfolding int_div_pow2[OF e0] by (rule round_even_le)
  then have "(of_int (round_even (x / pow2 e)) :: rat) \<le> of_int (N * 2 ^ nat (- e))"
    using of_int_le_iff by blast
  then have "of_int (round_even (x / pow2 e)) \<le> of_int N / pow2 e"
    by (simp only: int_div_pow2[OF e0])
  then have "of_int (round_even (x / pow2 e)) * pow2 e \<le> of_int N"
    using epos by (simp add: pos_le_divide_eq)
  then show ?thesis using assms(1) by (simp add: fl64_def e_def)
qed

lemma fl64_ge_int:
  assumes "0 < x" "x < 2 ^ 53" "of_int N \<le> x"
  shows "of_int N \<le> fl64 x"
proof -
  define e where "e = expo x"
  have epos: "0 < pow2 e" by (rule pow2_pos)
  have e0: "e \<le> 0" using expo_nonpos[OF assms(1,2)] by (simp add: e_def)
  have "of_int N / pow2 e \<le> x / pow2 e"
    using assms(3) epos by (simp add: divide_le_cancel)
  then have "N * 2 ^ nat (- e) \<le> round_even (x / pow2 e)"
    unfolding int_div_pow2[OF e0] by (rule round_even_ge)
  then have "(of_int (N * 2 ^ nat (- e)) :: rat) \<le> of_int (round_even (x / pow2 e))"
    using of_int_le_iff by blast
  then have "of_int N / pow2 e \<le> of_int (round_even (x / pow2 e))"
    by (simp only: int_div_pow2[OF e0])
  then have "of_int N \<le> of_int (round_even (x / pow2 e)) * pow2 e"
    using epos by (simp add: pos_divide_le_eq)
  then show ?thesis using assms(1) by (simp add: fl64_def e_def)
qed

lemma fl64_of_int:
  assumes "\<bar>n\<bar> < 2 ^ 53"
  shows "fl64 (of_int n) = of_int n"
proof -
  have pos: "fl64 (of_int m) = of_int m" if "0 < m" "m < 2 ^ 53" for m :: int
  proof -
    have a: "(0::rat) < of_int m" using that by simp
    have "(of_int m :: rat) < of_int (2 ^ 53)" using that(2) of_int_less_iff by blast
    then have b: "(of_int m :: rat) < 2 ^ 53" by simp
    show ?thesis using fl64_le_int[OF a b, of m] fl64_ge_int[OF a b, of m] by simp
  qed
  show ?thesis
  proof (cases "0 < n")
    case True then show ?thesis using pos[of n] assms by simp
  next
    case False
    show ?thesis
    proof (cases "n = 0")
      case True then show ?thesis by (simp add: fl64_def)
    next
      case False
      with \<open>\<not> 0 < n\<close> have "0 < - n" "- n < 2 ^ 53" using assms by auto
      from pos[OF this] show ?thesis using fl64_neg[of "of_int n"] by simp
    qed
  qed
qed



lemma f64_to_int_floor: "0 \<le> a \<Longrightarrow> f64_to_int a = \<lfloor>a\<rfloor>"
  by (simp add: f64_to_int_def)

subsection \<open>Majority arithmetic\<close>

text \<open>
  The float64 expression \<open>int(float64(n) * 2 / 3)\<close> is the integer quotient: both
  conversions and the product are exact, and the rounded quotient stays below the next
  integer.
\<close>

lemma majority_float:
  assumes "0 \<le> n" "n < 2 ^ 50"
  shows "f64_to_int (f64_div (f64_mul (f64_of_int n) 2) 3) = (n * 2) div 3"
proof (cases "n = 0")
  case True
  then show ?thesis
    by (simp add: f64_to_int_def f64_div_def f64_mul_def f64_of_int_def fl64_def)
next
  case False
  with assms have npos: "0 < n" by simp
  define k where "k = (n * 2) div 3"
  define y :: rat where "y = of_int (n * 2) / 3"
  have conv: "f64_of_int n = of_int n"
    using assms by (simp add: f64_of_int_def fl64_of_int)
  have "f64_mul (of_int n) 2 = fl64 (of_int (n * 2))"
    by (simp add: f64_mul_def)
  also have "\<dots> = of_int (n * 2)"
    using assms by (intro fl64_of_int) simp
  finally have dbl: "f64_mul (f64_of_int n) 2 = of_int (n * 2)" by (simp add: conv)
  have ypos: "0 < y" using npos by (simp add: y_def)
  have "(of_int (n * 2) :: rat) < of_int (2 ^ 51)"
    using assms(2) by (simp only: of_int_less_iff) simp
  then have ylt: "y < 2 ^ 51" by (simp add: y_def)
  then have y53: "y < 2 ^ 53" by simp
  have k3: "3 * k \<le> n * 2" "n * 2 \<le> 3 * k + 2" by (simp_all add: k_def)
  have "(of_int (3 * k) :: rat) \<le> of_int (n * 2)" using k3(1) by (simp only: of_int_le_iff)
  then have lo: "of_int k \<le> y" by (simp add: y_def)
  have "(of_int (n * 2) :: rat) \<le> of_int (3 * k + 2)" using k3(2) by (simp only: of_int_le_iff)
  then have hi: "y \<le> of_int k + 2 / 3" by (simp add: y_def)
  have ge: "of_int k \<le> fl64 y" by (rule fl64_ge_int[OF ypos y53 lo])
  have "\<bar>fl64 y - y\<bar> \<le> y / 2 ^ 53" by (rule fl64_error[OF ypos])
  moreover have "y / 2 ^ 53 < 1 / 3" using ylt by simp
  ultimately have lt: "fl64 y < of_int k + 1" using hi by linarith
  have "\<lfloor>fl64 y\<rfloor> = k" using ge lt by (simp add: floor_unique)
  moreover have "0 \<le> k" using npos by (simp add: k_def)
  then have "(0::rat) \<le> of_int k" by simp
  then have "0 \<le> fl64 y" using ge by linarith
  ultimately have "f64_to_int (fl64 y) = k" by (simp add: f64_to_int_floor)
  then show ?thesis by (simp add: dbl f64_div_def y_def k_def)
qed

text \<open>
  C5. For a committee of n arbitrators, 1 \<le> n \<le> 256, \<open>GetArbitersMajorityCount\<close> is
  floor(n * 2 / 3), \<open>HasArbitersMajorityCount m\<close> holds exactly when m exceeds it, and
  \<open>HasArbitersMinorityCount m\<close> holds exactly when m is at least n minus it.
\<close>

theorem C5_majority_arithmetic:
  assumes "1 \<le> length (currentArbitrators a)" and "length (currentArbitrators a) \<le> 256"
  shows "GetArbitersMajorityCount a = (int (length (currentArbitrators a)) * 2) div 3
       \<and> (HasArbitersMajorityCount m a \<longleftrightarrow> (int (length (currentArbitrators a)) * 2) div 3 < m)
       \<and> (HasArbitersMinorityCount m a \<longleftrightarrow>
            int (length (currentArbitrators a)) - (int (length (currentArbitrators a)) * 2) div 3 \<le> m)"
proof -
  have "int (length (currentArbitrators a)) < 2 ^ 50" using assms(2) by simp
  then have "GetArbitersMajorityCount a = (int (length (currentArbitrators a)) * 2) div 3"
    unfolding GetArbitersMajorityCount_def by (intro majority_float) simp_all
  then show ?thesis
    by (simp add: HasArbitersMajorityCount_def HasArbitersMinorityCount_def)
qed

theorem C5_majority_arithmetic_witness:
  "1 \<le> length (currentArbitrators exArbiters) \<and> length (currentArbitrators exArbiters) \<le> 256
   \<and> GetArbitersMajorityCount exArbiters = 3
   \<and> HasArbitersMajorityCount 4 exArbiters \<and> \<not> HasArbitersMajorityCount 3 exArbiters
   \<and> HasArbitersMinorityCount 2 exArbiters \<and> \<not> HasArbitersMinorityCount 1 exArbiters"
  using C5_majority_arithmetic [of exArbiters 4] C5_majority_arithmetic [of exArbiters 3]
    C5_majority_arithmetic [of exArbiters 2] C5_majority_arithmetic [of exArbiters 1]
  by (simp add: exArbiters_def)

subsection \<open>Rotation schedule\<close>

text \<open>
  C2. For every next height and every state, \<open>getChangeType\<close> resolves as the schedule
  states: the change type is the one of the first line of the schedule that applies, and
  where the schedule names a version height the code returns that height. Heights are
  \<open>uint32\<close>, so \<open>H - PreConnectOffset\<close> wraps around as in the code.
\<close>

theorem C2_rotation_schedule:
  "fst (getChangeType next a)
     = fst (rotationSchedule (chainParams a) (dutyIndex a) (length (currentArbitrators a)) next)
   \<and> snd (rotationSchedule (chainParams a) (dutyIndex a) (length (currentArbitrators a)) next)
       \<in> {None, Some (snd (getChangeType next a))}
   \<and> (next = CRCOnlyDPOSHeight (chainParams a) - PreConnectOffset (chainParams a) \<longrightarrow>
        getChangeType next a = (updateNext, CRCOnlyDPOSHeight (chainParams a)))
   \<and> (next \<noteq> CRCOnlyDPOSHeight (chainParams a) - PreConnectOffset (chainParams a)
        \<and> next = CRCOnlyDPOSHeight (chainParams a) \<longrightarrow>
        getChangeType next a = (normalChange, CRCOnlyDPOSHeight (chainParams a)))
   \<and> (next \<noteq> CRCOnlyDPOSHeight (chainParams a) - PreConnectOffset (chainParams a)
        \<and> next \<noteq> CRCOnlyDPOSHeight (chainParams a)
        \<and> next = PublicDPOSHeight (chainParams a) - PreConnectOffset (chainParams a) \<longrightarrow>
        getChangeType next a = (updateNext, PublicDPOSHeight (chainParams a)))
   \<and> (next \<noteq> CRCOnlyDPOSHeight (chainParams a) - PreConnectOffset (chainParams a)
        \<and> next \<noteq> CRCOnlyDPOSHeight (chainParams a)
        \<and> next \<noteq> PublicDPOSHeight (chainParams a) - PreConnectOffset (chainParams a)
        \<and> next = PublicDPOSHeight (chainParams a) \<longrightarrow>
        getChangeType next a = (normalChange, PublicDPOSHeight (chainParams a)))
   \<and> (next \<noteq> CRCOnlyDPOSHeight (chainParams a) - PreConnectOffset (chainParams a)
        \<and> next \<noteq> CRCOnlyDPOSHeight (chainParams a)
        \<and> next \<noteq> PublicDPOSHeight (chainParams a) - PreConnectOffset (chainParams a)
        \<and> next \<noteq> PublicDPOSHeight (chainParams a) \<longrightarrow>
        fst (getChangeType next a)
          = (if PublicDPOSHeight (chainParams a) < next
                \<and> dutyIndex a = int (length (currentArbitrators a)) - 1
             then normalChange else none))"
proof -
  define A where "A = CRCOnlyDPOSHeight (chainParams a) - PreConnectOffset (chainParams a)"
  define B where "B = CRCOnlyDPOSHeight (chainParams a)"
  define C where "C = PublicDPOSHeight (chainParams a) - PreConnectOffset (chainParams a)"
  define D where "D = PublicDPOSHeight (chainParams a)"
  define last where "last \<longleftrightarrow>
    PublicDPOSHeight (chainParams a) < next \<and> dutyIndex a = int (length (currentArbitrators a)) - 1"
  have refine: "fst (getChangeType next a)
     = fst (rotationSchedule (chainParams a) (dutyIndex a) (length (currentArbitrators a)) next)
   \<and> snd (rotationSchedule (chainParams a) (dutyIndex a) (length (currentArbitrators a)) next)
       \<in> {None, Some (snd (getChangeType next a))}"
    by (simp add: getChangeType_def rotationSchedule_def Let_def)
  have lines: "getChangeType next a =
      (if next = A then (updateNext, B)
       else if next = B then (normalChange, B)
       else if next = C then (updateNext, D)
       else if next = D then (normalChange, D)
       else if last then (normalChange, next)
       else (none, next))"
    unfolding A_def B_def C_def D_def last_def by (simp add: getChangeType_def Let_def)
  have each: "(next = A \<longrightarrow> getChangeType next a = (updateNext, B))
      \<and> (next \<noteq> A \<and> next = B \<longrightarrow> getChangeType next a = (normalChange, B))
      \<and> (next \<noteq> A \<and> next \<noteq> B \<and> next = C \<longrightarrow> getChangeType next a = (updateNext, D))
      \<and> (next \<noteq> A \<and> next \<noteq> B \<and> next \<noteq> C \<and> next = D \<longrightarrow>
           getChangeType next a = (normalChange, D))
      \<and> (next \<noteq> A \<and> next \<noteq> B \<and> next \<noteq> C \<and> next \<noteq> D \<longrightarrow>
           fst (getChangeType next a) = (if last then normalChange else none))"
    unfolding lines by auto
  from refine each show ?thesis
    unfolding A_def B_def C_def D_def last_def by blast
qed

theorem C2_rotation_schedule_witness:
  "getChangeType 90 exArbiters = (updateNext, 100)
   \<and> getChangeType 100 exArbiters = (normalChange, 100)
   \<and> getChangeType 190 exArbiters = (updateNext, 200)
   \<and> getChangeType 200 exArbiters = (normalChange, 200)
   \<and> fst (getChangeType 250 (exArbiters\<lparr>dutyIndex := 4\<rparr>)) = normalChange
   \<and> fst (getChangeType 250 exArbiters) = none
   \<and> fst (getChangeType 150 (exArbiters\<lparr>dutyIndex := 4\<rparr>)) = none"
  using C2_rotation_schedule [of 90 exArbiters] C2_rotation_schedule [of 100 exArbiters]
    C2_rotation_schedule [of 190 exArbiters] C2_rotation_schedule [of 200 exArbiters]
    C2_rotation_schedule [of 250 "exArbiters\<lparr>dutyIndex := 4\<rparr>"]
    C2_rotation_schedule [of 250 exArbiters]
    C2_rotation_schedule [of 150 "exArbiters\<lparr>dutyIndex := 4\<rparr>"]
  by (simp add: rotationSchedule_def exArbiters_def exParams_def prod_eq_iff)

subsection \<open>View-change countdown\<close>

text \<open>
  With a timeout factor of 0 the code answers false whatever the view offset, while
  "view offset at least committee size times factor" holds for every offset.
\<close>

theorem C9_counterexample:
  "\<not> (IsTimeOut exCountDown \<longleftrightarrow>
        cfgPublicDPOSHeight exCountDown < CurrentHeight exCountDown
        \<and> arbitersCount exCountDown * uint (timeoutRefactor exCountDown) \<le> uint (GetViewOffset exCountDown))"
  by (simp add: IsTimeOut_def exCountDown_def)

text \<open>
  C9 (amended). \<open>IsTimeOut\<close> is true exactly when the current height is above
  \<open>PublicDPOSHeight\<close>, the timeout factor is not 0, and the view offset is at least the
  committee size times the factor. The product is a \<open>uint32\<close> product; it is the
  integer product whenever that fits 32 bits.
\<close>

theorem C9_timeout:
  "(IsTimeOut c \<longleftrightarrow>
      cfgPublicDPOSHeight c < CurrentHeight c \<and> timeoutRefactor c \<noteq> 0
      \<and> word_of_int (arbitersCount c) * timeoutRefactor c \<le> GetViewOffset c)
   \<and> (0 \<le> arbitersCount c \<and> arbitersCount c * uint (timeoutRefactor c) < 2 ^ 32 \<longrightarrow>
        (IsTimeOut c \<longleftrightarrow>
           cfgPublicDPOSHeight c < CurrentHeight c \<and> timeoutRefactor c \<noteq> 0
           \<and> arbitersCount c * uint (timeoutRefactor c) \<le> uint (GetViewOffset c)))"
proof -
  have word: "IsTimeOut c \<longleftrightarrow>
      cfgPublicDPOSHeight c < CurrentHeight c \<and> timeoutRefactor c \<noteq> 0
      \<and> word_of_int (arbitersCount c) * timeoutRefactor c \<le> GetViewOffset c"
    by (auto simp: IsTimeOut_def not_le)
  have prod: "uint (word_of_int (arbitersCount c) * timeoutRefactor c :: uint32)
                = arbitersCount c * uint (timeoutRefactor c)"
    if "0 \<le> arbitersCount c" "arbitersCount c * uint (timeoutRefactor c) < 2 ^ 32"
  proof -
    have "(word_of_int (arbitersCount c) * timeoutRefactor c :: uint32)
            = word_of_int (arbitersCount c * uint (timeoutRefactor c))"
      by simp
    moreover have "0 \<le> arbitersCount c * uint (timeoutRefactor c)" using that(1) by simp
    ultimately show ?thesis using that(2)
      by (simp only: uint_word_of_int) (simp add: take_bit_int_eq_self)
  qed
  show ?thesis using word prod by (auto simp: word_le_def)
qed

theorem C9_timeout_witness:
  "0 \<le> arbitersCount (SetEliminated (exCountDown\<lparr>GetViewOffset := 5\<rparr>))
   \<and> arbitersCount (SetEliminated (exCountDown\<lparr>GetViewOffset := 5\<rparr>))
       * uint (timeoutRefactor (SetEliminated (exCountDown\<lparr>GetViewOffset := 5\<rparr>))) < 2 ^ 32
   \<and> IsTimeOut (SetEliminated (exCountDown\<lparr>GetViewOffset := 5\<rparr>))
   \<and> \<not> IsTimeOut (SetEliminated (exCountDown\<lparr>GetViewOffset := 4\<rparr>))"
  using C9_timeout [of "SetEliminated (exCountDown\<lparr>GetViewOffset := 5\<rparr>)"]
    C9_timeout [of "SetEliminated (exCountDown\<lparr>GetViewOffset := 4\<rparr>)"]
  by (simp add: SetEliminated_def exCountDown_def firstTimeoutFactor_def Let_def)

subsection \<open>Duty lookup\<close>




text \<open>
  Outside that range: with a duty index of -1 and offset 0, Go's \<open>%\<close> yields -1 and the
  index expression panics.
\<close>

lemma duty_lookup_negative_index:
  "GetNextOnDutyArbitratorV exDeps 150 0 (exArbiters\<lparr>dutyIndex := - 1\<rparr>) = Panic IndexOutOfRange"
  by (simp add: GetNextOnDutyArbitratorV_def go_rem_def exArbiters_def exParams_def)

subsection \<open>Processing a block without a committee change\<close>

lemma getChangeType_State [simp]:
  "getChangeType h (a\<lparr>State := s\<rparr>) = getChangeType h a"
  by (simp add: getChangeType_def Let_def)

text \<open>
  C10. A block above \<open>PublicDPOSHeight\<close> whose change type is none resets the last
  settled payout ledger: afterwards \<open>GetArbitersRoundReward\<close> is nil and
  \<open>GetFinalRoundChange\<close> is 0.
\<close>

theorem C10_ledger_reset:
  assumes "fst (getChangeType (Height block + 1) a) = none"
    and "PublicDPOSHeight (chainParams a) < Height block"
  shows "\<exists>a'. ProcessBlock d block confirm a = Ok a'
              \<and> GetArbitersRoundReward a' = None \<and> GetFinalRoundChange a' = 0"
proof -
  obtain v where ct: "getChangeType (Height block + 1) a = (none, v)"
    using assms(1) by (cases "getChangeType (Height block + 1) a") simp
  have "\<not> Height block \<le> PublicDPOSHeight (chainParams a)" using assms(2) by simp
  then show ?thesis
    by (simp add: ProcessBlock_def IncreaseChainHeight_def ct accumulateReward_def
        GetArbitersRoundReward_def GetFinalRoundChange_def Let_def)
qed

theorem C10_ledger_reset_witness:
  "fst (getChangeType (Height (exBlock 250 [100]) + 1) exArbiters) = none
   \<and> PublicDPOSHeight (chainParams exArbiters) < Height (exBlock 250 [100])
   \<and> GetArbitersRoundReward exArbiters = Some [([9], 5)] \<and> GetFinalRoundChange exArbiters = 7
   \<and> (\<exists>a'. ProcessBlock exDeps (exBlock 250 [100]) None exArbiters = Ok a'
              \<and> GetArbitersRoundReward a' = None \<and> GetFinalRoundChange a' = 0)"
  using C10_ledger_reset [of "exBlock 250 [100]" exArbiters exDeps None]
  by (simp add: getChangeType_def exArbiters_def exParams_def exBlock_def
      GetArbitersRoundReward_def GetFinalRoundChange_def)

subsection \<open>What committee selection and settlement leave untouched\<close>

text \<open>
  Selecting the next committee and settling the reward write neither the duty index nor
  the illegal-evidence table, whether they return an error or not.
\<close>

lemma stateOf_OkI: "r = Ok x \<Longrightarrow> stateOf r = Some x"
  by simp

lemma stateOf_ErrI: "r = Err e x \<Longrightarrow> stateOf r = Some x"
  by simp

lemma isOk_obtain: "isOk r \<Longrightarrow> \<exists>x. r = Ok x"
  by (cases r) simp_all

lemma snapshotVotes_frame:
  "stateOf (snapshotVotes d ks a) = Some a' \<Longrightarrow>
     dutyIndex a' = dutyIndex a \<and> illegalBlocksPayloadHashes a' = illegalBlocksPayloadHashes a"
proof (induction ks arbitrary: a)
  case Nil
  then show ?case by simp
next
  case (Cons k ks)
  show ?case
  proof (cases "IsCRCArbitrator k a")
    case True
    with Cons show ?thesis by simp
  next
    case False
    show ?thesis
    proof (cases "GetProducer d k (State a)")
      case None
      with False Cons.prems show ?thesis by simp
    next
      case (Some producer)
      show ?thesis
      proof (cases "PublicKeyToStandardProgramHash d (OwnerPublicKey producer)")
        case (Inl e)
        with False Some Cons.prems show ?thesis by simp
      next
        case (Inr programHash)
        with False Some Cons.prems Cons.IH show ?thesis by fastforce
      qed
    qed
  qed
qed

lemma nextOwnerHashes_frame:
  "stateOf (nextOwnerHashes d ks a) = Some a' \<Longrightarrow>
     dutyIndex a' = dutyIndex a \<and> illegalBlocksPayloadHashes a' = illegalBlocksPayloadHashes a"
proof (induction ks arbitrary: a)
  case Nil
  then show ?case by simp
next
  case (Cons k ks)
  from Cons.prems show ?case
    by (auto simp: IsCRCArbitrator_def split: if_splits option.splits sum.splits dest!: Cons.IH)
qed

lemma nextCandidateHashes_frame:
  "stateOf (nextCandidateHashes d ks a) = Some a' \<Longrightarrow>
     dutyIndex a' = dutyIndex a \<and> illegalBlocksPayloadHashes a' = illegalBlocksPayloadHashes a"
proof (induction ks arbitrary: a)
  case Nil
  then show ?case by simp
next
  case (Cons k ks)
  from Cons.prems show ?case
    by (auto simp: IsCRCArbitrator_def split: if_splits option.splits sum.splits dest!: Cons.IH)
qed

lemma snapshotVotesStates_frame:
  assumes "stateOf (snapshotVotesStates d a) = Some a'"
  shows "dutyIndex a' = dutyIndex a \<and> illegalBlocksPayloadHashes a' = illegalBlocksPayloadHashes a"
proof (cases "snapshotVotes d (nextArbitrators a) (a\<lparr>ownerVotesInRound := [], totalVotesInRound := 0\<rparr>)")
  case (Ok a1)
  then have 1: "dutyIndex a1 = dutyIndex a \<and> illegalBlocksPayloadHashes a1 = illegalBlocksPayloadHashes a"
    using snapshotVotes_frame[of d "nextArbitrators a" "a\<lparr>ownerVotesInRound := [], totalVotesInRound := 0\<rparr>" a1] by simp
  from Ok assms have "stateOf (snapshotVotes d (nextCandidates a1) a1) = Some a'"
    by (simp add: snapshotVotesStates_def)
  from snapshotVotes_frame[OF this] 1 show ?thesis by simp
next
  case (Err e a1)
  then have "a' = a1" using assms by (simp add: snapshotVotesStates_def)
  with Err show ?thesis
    using snapshotVotes_frame[of d "nextArbitrators a" "a\<lparr>ownerVotesInRound := [], totalVotesInRound := 0\<rparr>" a1] by simp
next
  case (Panic p)
  with assms show ?thesis by (simp add: snapshotVotesStates_def)
qed

lemma updateNextOwnerProgramHashes_frame:
  assumes "stateOf (updateNextOwnerProgramHashes d a) = Some a'"
  shows "dutyIndex a' = dutyIndex a \<and> illegalBlocksPayloadHashes a' = illegalBlocksPayloadHashes a"
proof (cases "nextOwnerHashes d (nextArbitrators a) (a\<lparr>nextOwnerProgramHashes := []\<rparr>)")
  case (Ok a1)
  then have 1: "dutyIndex a1 = dutyIndex a \<and> illegalBlocksPayloadHashes a1 = illegalBlocksPayloadHashes a"
    using nextOwnerHashes_frame[of d "nextArbitrators a" "a\<lparr>nextOwnerProgramHashes := []\<rparr>" a1] by simp
  from Ok assms have "stateOf (nextCandidateHashes d (nextCandidates a1)
      (a1\<lparr>nextCandidateOwnerProgramHashes := []\<rparr>)) = Some a'"
    by (simp add: updateNextOwnerProgramHashes_def)
  from nextCandidateHashes_frame[OF this] 1 show ?thesis by simp
next
  case (Err e a1)
  then have "a' = a1" using assms by (simp add: updateNextOwnerProgramHashes_def)
  with Err show ?thesis
    using nextOwnerHashes_frame[of d "nextArbitrators a" "a\<lparr>nextOwnerProgramHashes := []\<rparr>" a1] by simp
next
  case (Panic p)
  with assms show ?thesis by (simp add: updateNextOwnerProgramHashes_def)
qed

lemma snapshotAndHashes_frame:
  assumes "stateOf (snapshotAndHashes d a) = Some a'"
  shows "dutyIndex a' = dutyIndex a \<and> illegalBlocksPayloadHashes a' = illegalBlocksPayloadHashes a"
proof (cases "snapshotVotesStates d a")
  case (Ok a1)
  then have 1: "dutyIndex a1 = dutyIndex a \<and> illegalBlocksPayloadHashes a1 = illegalBlocksPayloadHashes a"
    using snapshotVotesStates_frame[of d a a1] by simp
  from Ok assms have "stateOf (updateNextOwnerProgramHashes d a1) = Some a'"
    by (simp add: snapshotAndHashes_def)
  from updateNextOwnerProgramHashes_frame[OF this] 1 show ?thesis by simp
next
  case (Err e a1)
  then have "a' = a1" using assms by (simp add: snapshotAndHashes_def)
  with Err show ?thesis using snapshotVotesStates_frame[of d a a1] by simp
next
  case (Panic p)
  with assms show ?thesis by (simp add: snapshotAndHashes_def)
qed

lemma updateNextArbitrators_frame:
  assumes "stateOf (updateNextArbitrators d h a) = Some a'"
  shows "dutyIndex a' = dutyIndex a \<and> illegalBlocksPayloadHashes a' = illegalBlocksPayloadHashes a"
  using assms unfolding updateNextArbitrators_def Let_def tryHandleError_def
  by (auto split: if_splits sum.splits result.splits dest!: snapshotAndHashes_frame)

lemma storeRoundReward_frame:
  "storeRoundReward k v a = Some a' \<Longrightarrow>
     dutyIndex a' = dutyIndex a \<and> illegalBlocksPayloadHashes a' = illegalBlocksPayloadHashes a"
  by (auto simp: storeRoundReward_def split: option.splits)

lemma payArbiters_frame:
  "stateOf (payArbiters ibcr rpv hs paid a) = Some (paid', a') \<Longrightarrow>
     dutyIndex a' = dutyIndex a \<and> illegalBlocksPayloadHashes a' = illegalBlocksPayloadHashes a"
proof (induction hs arbitrary: paid a)
  case Nil
  then show ?case by simp
next
  case (Cons h hs)
  from Cons.prems show ?case
    by (auto simp: Let_def split: if_splits option.splits
        dest!: Cons.IH storeRoundReward_frame)
qed

lemma payCandidates_frame:
  "stateOf (payCandidates rpv hs paid a) = Some (paid', a') \<Longrightarrow>
     dutyIndex a' = dutyIndex a \<and> illegalBlocksPayloadHashes a' = illegalBlocksPayloadHashes a"
proof (induction hs arbitrary: paid a)
  case Nil
  then show ?case by simp
next
  case (Cons h hs)
  from Cons.prems show ?case
    by (auto simp: Let_def split: if_splits option.splits
        dest!: Cons.IH storeRoundReward_frame)
qed

lemma distributeWithNormalArbitrators_frame:
  assumes "stateOf (distributeWithNormalArbitrators reward a) = Some (paid', a')"
  shows "dutyIndex a' = dutyIndex a \<and> illegalBlocksPayloadHashes a' = illegalBlocksPayloadHashes a"
  using assms unfolding distributeWithNormalArbitrators_def Let_def
  by (auto split: if_splits option.splits result.splits prod.splits
      dest!: payArbiters_frame[OF stateOf_OkI] payArbiters_frame[OF stateOf_ErrI]
        payCandidates_frame storeRoundReward_frame)

lemma distributeDPOSReward_frame:
  assumes "stateOf (distributeDPOSReward reward a) = Some a'"
  shows "dutyIndex a' = dutyIndex a \<and> illegalBlocksPayloadHashes a' = illegalBlocksPayloadHashes a"
  using assms unfolding distributeDPOSReward_def Let_def
  by (auto split: if_splits result.splits prod.splits
      dest!: distributeWithNormalArbitrators_frame[OF stateOf_OkI]
        distributeWithNormalArbitrators_frame[OF stateOf_ErrI])

lemma clearingDPOSReward_frame:
  assumes "stateOf (clearingDPOSReward block smooth a) = Some a'"
  shows "dutyIndex a' = dutyIndex a \<and> illegalBlocksPayloadHashes a' = illegalBlocksPayloadHashes a"
  using assms unfolding clearingDPOSReward_def Let_def
  by (auto split: if_splits result.splits
      dest!: distributeDPOSReward_frame[OF stateOf_OkI] distributeDPOSReward_frame[OF stateOf_ErrI])

lemma ForceChange_Ok:
  assumes "ForceChange d height a = Ok a'"
  shows "dutyIndex a' = 0 \<and> illegalBlocksPayloadHashes a' = illegalBlocksPayloadHashes a
         \<and> sorted (currentArbitrators a')"
proof -
  from assms obtain block a1 a2 where
    b: "bestBlock d = Inr block" and
    c: "clearingDPOSReward block False a = Ok a1" and
    u: "updateNextArbitrators d (height + 1) a1 = Ok a2" and
    ch: "changeCurrentArbitrators a2 = Ok a'"
    unfolding ForceChange_def by (auto split: sum.splits result.splits)
  from clearingDPOSReward_frame[of block False a a1] c
  have 1: "illegalBlocksPayloadHashes a1 = illegalBlocksPayloadHashes a" by simp
  from updateNextArbitrators_frame[of d "height + 1" a1 a2] u
  have 2: "illegalBlocksPayloadHashes a2 = illegalBlocksPayloadHashes a1" by simp
  from ch 1 2 show ?thesis by (auto simp: changeCurrentArbitrators_def)
qed

lemma ForceChange_frame:
  assumes "stateOf (ForceChange d height a) = Some a'"
  shows "illegalBlocksPayloadHashes a' = illegalBlocksPayloadHashes a"
  using assms unfolding ForceChange_def changeCurrentArbitrators_def
  by (auto split: sum.splits result.splits
      dest!: clearingDPOSReward_frame[OF stateOf_OkI] clearingDPOSReward_frame[OF stateOf_ErrI]
        updateNextArbitrators_frame[OF stateOf_OkI] updateNextArbitrators_frame[OF stateOf_ErrI])

lemma NormalChange_Ok:
  assumes "NormalChange d height a = Ok a'"
  shows "dutyIndex a' = 0"
  using assms unfolding NormalChange_def changeCurrentArbitrators_def
  by (auto split: result.splits dest!: updateNextArbitrators_frame[OF stateOf_OkI])

subsection \<open>Duty index\<close>

text \<open>
  C6. Processing a block whose change type is none adds exactly 1 to \<open>dutyIndex\<close>;
  right after the promotion of the next arbitrators (\<open>changeCurrentArbitrators\<close>), and
  after a processed block whose change type is normalChange, \<open>dutyIndex\<close> is 0.
\<close>

theorem C6_duty_index:
  "(fst (getChangeType (Height block + 1) a) = none \<longrightarrow>
      (\<exists>a'. ProcessBlock d block confirm a = Ok a' \<and> dutyIndex a' = dutyIndex a + 1))
   \<and> (\<forall>a'. changeCurrentArbitrators a = Ok a' \<longrightarrow> dutyIndex a' = 0)
   \<and> (\<forall>a'. fst (getChangeType (Height block + 1) a) = normalChange
            \<and> ProcessBlock d block confirm a = Ok a' \<longrightarrow> dutyIndex a' = 0)"
proof (intro conjI impI allI)
  assume "fst (getChangeType (Height block + 1) a) = none"
  then obtain v where ct: "getChangeType (Height block + 1) a = (none, v)"
    by (cases "getChangeType (Height block + 1) a") simp
  show "\<exists>a'. ProcessBlock d block confirm a = Ok a' \<and> dutyIndex a' = dutyIndex a + 1"
    by (simp add: ProcessBlock_def IncreaseChainHeight_def ct accumulateReward_def Let_def)
next
  fix a' assume "changeCurrentArbitrators a = Ok a'"
  then show "dutyIndex a' = 0" by (auto simp: changeCurrentArbitrators_def)
next
  fix a'
  assume h: "fst (getChangeType (Height block + 1) a) = normalChange
             \<and> ProcessBlock d block confirm a = Ok a'"
  then obtain v where ct: "getChangeType (Height block + 1) a = (normalChange, v)"
    by (cases "getChangeType (Height block + 1) a") simp
  let ?a0 = "a\<lparr>State := StateProcessBlock d (currentArbitrators a) block confirm (State a)\<rparr>"
  from h ct obtain a1 a2 where
    "clearingDPOSReward block True ?a0 = Ok a1" and
    n: "NormalChange d (Height block) a1 = Ok a2" and
    a': "a' = a2\<lparr>illegalBlocksPayloadHashes := []\<rparr>"
    unfolding ProcessBlock_def IncreaseChainHeight_def
    by (auto simp: Let_def split: result.splits)
  from NormalChange_Ok[OF n] a' show "dutyIndex a' = 0" by simp
qed

theorem C6_duty_index_witness:
  "fst (getChangeType (Height (exBlock 250 [100]) + 1) exArbiters) = none
   \<and> map_option dutyIndex (stateOf (ProcessBlock exDeps (exBlock 250 [100]) None exArbiters)) = Some 2
   \<and> map_option dutyIndex (stateOf (changeCurrentArbitrators exArbiters)) = Some 0
   \<and> fst (getChangeType (Height (exBlock 253 [100]) + 1) (exArbiters\<lparr>dutyIndex := 4\<rparr>)) = normalChange
   \<and> isOk (ProcessBlock exDeps (exBlock 253 [100]) None (exArbiters\<lparr>dutyIndex := 4\<rparr>))
   \<and> map_option dutyIndex
        (stateOf (ProcessBlock exDeps (exBlock 253 [100]) None (exArbiters\<lparr>dutyIndex := 4\<rparr>))) = Some 0"
proof -
  have n: "fst (getChangeType (Height (exBlock 250 [100]) + 1) exArbiters) = none"
    by (simp add: getChangeType_def exArbiters_def exParams_def exBlock_def)
  have c: "fst (getChangeType (Height (exBlock 253 [100]) + 1) (exArbiters\<lparr>dutyIndex := 4\<rparr>)) = normalChange"
    by (simp add: getChangeType_def exArbiters_def exParams_def exBlock_def)
  have ok: "isOk (ProcessBlock exDeps (exBlock 253 [100]) None (exArbiters\<lparr>dutyIndex := 4\<rparr>))"
    by code_simp
  then obtain a2 where
    p2: "ProcessBlock exDeps (exBlock 253 [100]) None (exArbiters\<lparr>dutyIndex := 4\<rparr>) = Ok a2"
    using isOk_obtain by blast
  have d1: "dutyIndex exArbiters = 1" by (simp add: exArbiters_def)
  from C6_duty_index [of "exBlock 250 [100]" exArbiters exDeps None] n d1
  have 1: "map_option dutyIndex (stateOf (ProcessBlock exDeps (exBlock 250 [100]) None exArbiters)) = Some 2"
    by auto
  from C6_duty_index [of "exBlock 253 [100]" "exArbiters\<lparr>dutyIndex := 4\<rparr>" exDeps None] c p2
  have 2: "dutyIndex a2 = 0" by blast
  have 3: "map_option dutyIndex (stateOf (changeCurrentArbitrators exArbiters)) = Some 0"
    by (simp add: changeCurrentArbitrators_def)
  from n c ok 1 2 3 p2 show ?thesis by simp
qed

subsection \<open>Special payloads\<close>

lemma gm_get_set: "gm_get (gm_set k v m) k = Some v"
  by (simp add: gm_get_def gm_set_def update_conv')

text \<open>
  A \<open>DPOSIllegalProposals\<close> payload takes the default branch of the type switch: the
  call returns the invalid-payload error, records nothing and changes no committee.
\<close>

theorem C3_counterexample:
  "ProcessSpecialTxPayload exDeps (DPOSIllegalProposals [7]) 250 exArbiters
     = Err ErrInvalidPayloadType exArbiters
   \<and> gm_get (illegalBlocksPayloadHashes exArbiters) [7] = None"
  by (simp add: ProcessSpecialTxPayload_def exArbiters_def gm_get_def)

text \<open>
  C3 (amended). For a \<open>DPOSIllegalBlocks\<close> payload \<open>ProcessSpecialTxPayload\<close> records
  the hash as expected in the next block and then forces a committee change at the given
  height (on success the duty index is 0 and the committee is sorted). For an
  \<open>InactiveArbitrators\<close> payload it records no hash in that table: a payload that
  \<open>AddInactivePayload\<close> rejects as a duplicate returns nil with no committee change, an
  accepted one forces the committee change. For every other payload, \<open>DPOSIllegalProposals\<close>
  included, it returns the invalid-payload error without modifying the state.
\<close>

theorem C3_special_payload:
  "(stateOf (ProcessSpecialTxPayload d (DPOSIllegalBlocks h) height a) = Some a' \<longrightarrow>
      gm_get (illegalBlocksPayloadHashes a') h = Some ())
   \<and> ProcessSpecialTxPayload d (DPOSIllegalBlocks h) height a
       = ForceChange d height
           (a\<lparr>illegalBlocksPayloadHashes := gm_set h () (illegalBlocksPayloadHashes a),
              State := StateProcessSpecialTxPayload d (currentArbitrators a) (DPOSIllegalBlocks h) height (State a)\<rparr>)
   \<and> (ProcessSpecialTxPayload d (DPOSIllegalBlocks h) height a = Ok a' \<longrightarrow>
        dutyIndex a' = 0 \<and> sorted (currentArbitrators a'))
   \<and> (stateOf (ProcessSpecialTxPayload d (InactiveArbitrators h) height a) = Some a' \<longrightarrow>
        illegalBlocksPayloadHashes a' = illegalBlocksPayloadHashes a)
   \<and> (\<not> fst (AddInactivePayload d (InactiveArbitrators h) (State a)) \<longrightarrow>
        ProcessSpecialTxPayload d (InactiveArbitrators h) height a
          = Ok (a\<lparr>State := snd (AddInactivePayload d (InactiveArbitrators h) (State a))\<rparr>))
   \<and> (fst (AddInactivePayload d (InactiveArbitrators h) (State a)) \<longrightarrow>
        ProcessSpecialTxPayload d (InactiveArbitrators h) height a
          = ForceChange d height
              (a\<lparr>State := StateProcessSpecialTxPayload d (currentArbitrators a) (InactiveArbitrators h) height
                             (snd (AddInactivePayload d (InactiveArbitrators h) (State a)))\<rparr>))
   \<and> ((case p of DPOSIllegalBlocks x \<Rightarrow> False | InactiveArbitrators x \<Rightarrow> False | _ \<Rightarrow> True) \<longrightarrow>
        ProcessSpecialTxPayload d p height a = Err ErrInvalidPayloadType a)"
proof -
  let ?a1 = "a\<lparr>illegalBlocksPayloadHashes := gm_set h () (illegalBlocksPayloadHashes a),
              State := StateProcessSpecialTxPayload d (currentArbitrators a) (DPOSIllegalBlocks h) height (State a)\<rparr>"
  have eq: "ProcessSpecialTxPayload d (DPOSIllegalBlocks h) height a = ForceChange d height ?a1"
    by (simp add: ProcessSpecialTxPayload_def Let_def)
  have rec: "gm_get (illegalBlocksPayloadHashes a') h = Some ()"
    if "stateOf (ProcessSpecialTxPayload d (DPOSIllegalBlocks h) height a) = Some a'"
  proof -
    from that eq have "stateOf (ForceChange d height ?a1) = Some a'" by simp
    from ForceChange_frame[OF this] show ?thesis by (simp add: gm_get_set)
  qed
  have chg: "dutyIndex a' = 0 \<and> sorted (currentArbitrators a')"
    if "ProcessSpecialTxPayload d (DPOSIllegalBlocks h) height a = Ok a'"
    using that eq ForceChange_Ok[of d height ?a1 a'] by simp
  have ina: "illegalBlocksPayloadHashes a' = illegalBlocksPayloadHashes a"
    if "stateOf (ProcessSpecialTxPayload d (InactiveArbitrators h) height a) = Some a'"
    using that unfolding ProcessSpecialTxPayload_def
    by (auto split: prod.splits bool.splits dest!: ForceChange_frame)
  have dup: "ProcessSpecialTxPayload d (InactiveArbitrators h) height a
          = Ok (a\<lparr>State := snd (AddInactivePayload d (InactiveArbitrators h) (State a))\<rparr>)"
    if "\<not> fst (AddInactivePayload d (InactiveArbitrators h) (State a))"
    using that unfolding ProcessSpecialTxPayload_def
    by (auto split: prod.splits bool.splits)
  have acc: "ProcessSpecialTxPayload d (InactiveArbitrators h) height a
          = ForceChange d height
              (a\<lparr>State := StateProcessSpecialTxPayload d (currentArbitrators a) (InactiveArbitrators h) height
                             (snd (AddInactivePayload d (InactiveArbitrators h) (State a)))\<rparr>)"
    if "fst (AddInactivePayload d (InactiveArbitrators h) (State a))"
    using that unfolding ProcessSpecialTxPayload_def
    by (auto split: prod.splits bool.splits)
  have oth: "ProcessSpecialTxPayload d p height a = Err ErrInvalidPayloadType a"
    if "case p of DPOSIllegalBlocks x \<Rightarrow> False | InactiveArbitrators x \<Rightarrow> False | _ \<Rightarrow> True"
    using that by (cases p) (simp_all add: ProcessSpecialTxPayload_def)
  from eq rec chg ina dup acc oth show ?thesis by blast
qed

theorem C3_special_payload_witness:
  "isOk (ProcessSpecialTxPayload exDeps (DPOSIllegalBlocks [7]) 250 exArbiters)
   \<and> map_option (\<lambda>a'. gm_get (illegalBlocksPayloadHashes a') [7])
        (stateOf (ProcessSpecialTxPayload exDeps (DPOSIllegalBlocks [7]) 250 exArbiters)) = Some (Some ())
   \<and> map_option dutyIndex
        (stateOf (ProcessSpecialTxPayload exDeps (DPOSIllegalBlocks [7]) 250 exArbiters)) = Some 0
   \<and> fst (AddInactivePayload exDeps (InactiveArbitrators [8]) (State exArbiters))
   \<and> isOk (ProcessSpecialTxPayload exDeps (InactiveArbitrators [8]) 250 exArbiters)
   \<and> map_option illegalBlocksPayloadHashes
        (stateOf (ProcessSpecialTxPayload exDeps (InactiveArbitrators [8]) 250 exArbiters)) = Some []
   \<and> ProcessSpecialTxPayload exDeps (DPOSIllegalProposals [7]) 250 exArbiters
        = Err ErrInvalidPayloadType exArbiters"
proof -
  have ok1: "isOk (ProcessSpecialTxPayload exDeps (DPOSIllegalBlocks [7]) 250 exArbiters)"
    by code_simp
  then obtain a1 where
    p1: "ProcessSpecialTxPayload exDeps (DPOSIllegalBlocks [7]) 250 exArbiters = Ok a1"
    using isOk_obtain by blast
  have ok2: "isOk (ProcessSpecialTxPayload exDeps (InactiveArbitrators [8]) 250 exArbiters)"
    by code_simp
  then obtain a2 where
    p2: "ProcessSpecialTxPayload exDeps (InactiveArbitrators [8]) 250 exArbiters = Ok a2"
    using isOk_obtain by blast
  have acc: "fst (AddInactivePayload exDeps (InactiveArbitrators [8]) (State exArbiters))"
    by (simp add: exDeps_def)
  have e: "illegalBlocksPayloadHashes exArbiters = []" by (simp add: exArbiters_def)
  from C3_special_payload [of exDeps "[7]" 250 exArbiters a1 "DPOSIllegalProposals [7]"] p1
  have 1: "gm_get (illegalBlocksPayloadHashes a1) [7] = Some ()" "dutyIndex a1 = 0"
    and 3: "ProcessSpecialTxPayload exDeps (DPOSIllegalProposals [7]) 250 exArbiters
              = Err ErrInvalidPayloadType exArbiters"
    by simp_all
  from C3_special_payload [of exDeps "[8]" 250 exArbiters a2 "DPOSIllegalProposals [7]"] p2 e
  have 2: "illegalBlocksPayloadHashes a2 = []" by simp
  from ok1 ok2 acc 1 2 3 p1 p2 show ?thesis by simp
qed

subsection \<open>Illegal-evidence check\<close>

lemma initFound:
  "map_of (foldl (\<lambda>m k. gm_set k False m) m0 ks)
     = (\<lambda>k. if k \<in> set ks then Some False else map_of m0 k)
   \<and> (distinct (map fst m0) \<longrightarrow> distinct (map fst (foldl (\<lambda>m k. gm_set k False m) m0 ks)))"
proof (induction ks arbitrary: m0)
  case Nil
  then show ?case by simp
next
  case (Cons k ks)
  have "map_of (gm_set k False m0) = (map_of m0)(k \<mapsto> False)"
    by (simp add: gm_set_def update_conv')
  moreover have "distinct (map fst m0) \<longrightarrow> distinct (map fst (gm_set k False m0))"
    by (simp add: gm_set_def distinct_update)
  ultimately show ?case using Cons.IH[of "gm_set k False m0"]
    by (auto simp: fun_eq_iff)
qed

lemma markFound_wellTyped:
  assumes "list_all (\<lambda>tx. IsIllegalBlockTx tx \<longrightarrow>
             (case Payload tx of DPOSIllegalBlocks h \<Rightarrow> True | _ \<Rightarrow> False)) txs"
  shows "\<exists>found. markFound txs m = Ok found
           \<and> map_of found = (\<lambda>k. if k \<in> set (illegalTxHashes txs) then Some True else map_of m k)
           \<and> (distinct (map fst m) \<longrightarrow> distinct (map fst found))"
  using assms
proof (induction txs arbitrary: m)
  case Nil
  then show ?case by (simp add: illegalTxHashes_def)
next
  case (Cons tx txs)
  show ?case
  proof (cases "IsIllegalBlockTx tx")
    case False
    with Cons show ?thesis by (simp add: illegalTxHashes_def)
  next
    case True
    with Cons.prems obtain h where h: "Payload tx = DPOSIllegalBlocks h"
      by (cases "Payload tx") simp_all
    have m1: "map_of (gm_set h True m) = (map_of m)(h \<mapsto> True)"
      by (simp add: gm_set_def update_conv')
    have d1: "distinct (map fst m) \<longrightarrow> distinct (map fst (gm_set h True m))"
      by (simp add: gm_set_def distinct_update)
    from Cons.prems have "list_all (\<lambda>tx. IsIllegalBlockTx tx \<longrightarrow>
             (case Payload tx of DPOSIllegalBlocks h \<Rightarrow> True | _ \<Rightarrow> False)) txs" by simp
    from Cons.IH[OF this, of "gm_set h True m"] obtain found where
      f: "markFound txs (gm_set h True m) = Ok found"
         "map_of found = (\<lambda>k. if k \<in> set (illegalTxHashes txs) then Some True else map_of (gm_set h True m) k)"
         "distinct (map fst (gm_set h True m)) \<longrightarrow> distinct (map fst found)"
      by blast
    have "illegalTxHashes (tx # txs) = h # illegalTxHashes txs" using True h by (simp add: illegalTxHashes_def)
    with f m1 d1 True h show ?thesis by (auto simp: fun_eq_iff)
  qed
qed

lemma foundFalse:
  assumes "distinct (map fst found)"
  shows "list_ex (\<lambda>kv. \<not> snd kv) found \<longleftrightarrow> (\<exists>k. map_of found k = Some False)"
proof -
  have "list_ex (\<lambda>kv. \<not> snd kv) found \<longleftrightarrow> (\<exists>k. (k, False) \<in> set found)"
    by (force simp: list_ex_iff)
  then show ?thesis using assms by simp
qed

text \<open>
  C4. With an empty table \<open>CheckDPOSIllegalTx\<close> returns nil for every block. For a
  block whose illegal-block transactions carry illegal-block payloads, it returns an
  error exactly when the table is not empty and some pending hash is not among the payload
  hashes of the block's illegal-block transactions; otherwise it returns nil.
\<close>

theorem C4_check_illegal_tx:
  "(illegalBlocksPayloadHashes a = [] \<longrightarrow> CheckDPOSIllegalTx block a = Ok ())
   \<and> (wellTyped block \<longrightarrow>
        ((\<exists>e. CheckDPOSIllegalTx block a = Err e ()) \<longleftrightarrow>
           illegalBlocksPayloadHashes a \<noteq> []
           \<and> (\<exists>k \<in> set (map fst (illegalBlocksPayloadHashes a)). k \<notin> set (illegalBlockHashes block)))
        \<and> (CheckDPOSIllegalTx block a = Ok ()
             \<or> CheckDPOSIllegalTx block a = Err ErrExpectIllegalBlocks ()))"
proof (intro conjI impI)
  assume "illegalBlocksPayloadHashes a = []"
  then show "CheckDPOSIllegalTx block a = Ok ()" by (simp add: CheckDPOSIllegalTx_def)
next
  assume wt: "wellTyped block"
  let ?keys = "map fst (illegalBlocksPayloadHashes a)"
  let ?init = "foldl (\<lambda>m k. gm_set k False m) [] ?keys"
  have hashes: "illegalBlockHashes block = illegalTxHashes (Transactions block)"
    by (simp add: illegalBlockHashes_def)
  from initFound[of "[]" ?keys] have
    i1: "map_of ?init = (\<lambda>k. if k \<in> set ?keys then Some False else None)" and
    i2: "distinct (map fst ?init)"
    by (simp_all cong: if_cong)
  from markFound_wellTyped[OF wt[unfolded wellTyped_def], of ?init] i2 obtain found where
    f1: "markFound (Transactions block) ?init = Ok found" and
    f2: "map_of found = (\<lambda>k. if k \<in> set (illegalTxHashes (Transactions block)) then Some True else map_of ?init k)" and
    f3: "distinct (map fst found)"
    by blast
  have missing: "list_ex (\<lambda>kv. \<not> snd kv) found \<longleftrightarrow>
      (\<exists>k \<in> set ?keys. k \<notin> set (illegalBlockHashes block))"
    unfolding foundFalse[OF f3] f2 i1 hashes by auto
  show "(\<exists>e. CheckDPOSIllegalTx block a = Err e ()) \<longleftrightarrow>
           illegalBlocksPayloadHashes a \<noteq> []
           \<and> (\<exists>k \<in> set ?keys. k \<notin> set (illegalBlockHashes block))"
    using f1 missing by (auto simp: CheckDPOSIllegalTx_def Let_def)
  show "CheckDPOSIllegalTx block a = Ok ()
             \<or> CheckDPOSIllegalTx block a = Err ErrExpectIllegalBlocks ()"
    using f1 by (auto simp: CheckDPOSIllegalTx_def Let_def)
qed

theorem C4_check_illegal_tx_witness:
  "illegalBlocksPayloadHashes exArbiters = []
   \<and> CheckDPOSIllegalTx exEvidenceBlock exArbiters = Ok ()
   \<and> wellTyped exEvidenceBlock
   \<and> CheckDPOSIllegalTx exEvidenceBlock
        (exArbiters\<lparr>illegalBlocksPayloadHashes := [([7], ()), ([8], ())]\<rparr>)
       = Err ErrExpectIllegalBlocks ()
   \<and> CheckDPOSIllegalTx exEvidenceBlock
        (exArbiters\<lparr>illegalBlocksPayloadHashes := [([7], ())]\<rparr>) = Ok ()"
proof -
  have wt: "wellTyped exEvidenceBlock"
    by (simp add: wellTyped_def exEvidenceBlock_def IsIllegalBlockTx_def)
  have hs: "illegalBlockHashes exEvidenceBlock = [[7]]"
    by (simp add: illegalBlockHashes_def illegalTxHashes_def exEvidenceBlock_def IsIllegalBlockTx_def)
  have e: "illegalBlocksPayloadHashes exArbiters = []" by (simp add: exArbiters_def)
  from C4_check_illegal_tx [of exArbiters exEvidenceBlock] e
  have 1: "CheckDPOSIllegalTx exEvidenceBlock exArbiters = Ok ()" by simp
  from C4_check_illegal_tx
    [of "exArbiters\<lparr>illegalBlocksPayloadHashes := [([7], ()), ([8], ())]\<rparr>" exEvidenceBlock] wt hs
  have 2: "CheckDPOSIllegalTx exEvidenceBlock
        (exArbiters\<lparr>illegalBlocksPayloadHashes := [([7], ()), ([8], ())]\<rparr>)
       = Err ErrExpectIllegalBlocks ()"
    by auto
  from C4_check_illegal_tx
    [of "exArbiters\<lparr>illegalBlocksPayloadHashes := [([7], ())]\<rparr>" exEvidenceBlock] wt hs
  have 3: "CheckDPOSIllegalTx exEvidenceBlock
        (exArbiters\<lparr>illegalBlocksPayloadHashes := [([7], ())]\<rparr>) = Ok ()"
    by auto
  from e 1 wt 2 3 show ?thesis by simp
qed

text \<open>
  A transaction tagged as illegal-block evidence with a payload of another type makes the
  unchecked type assertion panic, whatever the table holds.
\<close>

lemma check_illegal_tx_ill_typed:
  "CheckDPOSIllegalTx
     \<lparr>Height = 251,
      Transactions = [\<lparr>TxType = IllegalBlockEvidence, Payload = OtherPayload, Fee = 0\<rparr>]\<rparr>
     (exArbiters\<lparr>illegalBlocksPayloadHashes := [([7], ())]\<rparr>)
   = Panic TypeAssertion"
  by (simp add: CheckDPOSIllegalTx_def IsIllegalBlockTx_def)

subsection \<open>Accumulating the block reward\<close>






lemma accumulateReward_above:
  "PublicDPOSHeight (chainParams a) < Height block \<Longrightarrow>
     accumulativeReward (accumulateReward block a)
       = accumulativeReward a + getBlockDPOSReward (chainParams a) block"
  by (simp add: accumulateReward_def not_le [symmetric])





subsection \<open>Reward settlement\<close>

lemma gm_set_empty: "gm_set k v [] = [(k, v)]"
  by (simp add: gm_set_def)

lemma gm_set_same: "gm_set k v [(k, w)] = [(k, v)]"
  by (simp add: gm_set_def)

text \<open>
  C1, the branch with no votes in the round. \<open>distributeWithNormalArbitrators\<close> credits
  the whole reward to the CRC address and returns 0 as the amount paid, so
  \<open>distributeDPOSReward\<close> also keeps the whole reward as \<open>finalRoundChange\<close>: the
  ledger and the change add up to twice the reward that was distributed.
\<close>

theorem C1_zero_votes_settlement:
  assumes "totalVotesInRound a = 0" and "currentOwnerProgramHashes a \<noteq> []" and "0 \<le> reward"
  shows "\<exists>a'. distributeDPOSReward reward a = Ok a'
              \<and> GetArbitersRoundReward a' = Some [(CRCAddress (chainParams a), reward)]
              \<and> GetFinalRoundChange a' = reward
              \<and> sum_list (gm_values [(CRCAddress (chainParams a), reward)]) + GetFinalRoundChange a'
                  = 2 * reward"
  using assms
  by (simp add: distributeDPOSReward_def distributeWithNormalArbitrators_def storeRoundReward_def
      GetArbitersRoundReward_def GetFinalRoundChange_def gm_values_def gm_set_empty gm_set_same Let_def)

theorem C1_zero_votes_settlement_witness:
  "totalVotesInRound (exArbiters\<lparr>totalVotesInRound := 0\<rparr>) = 0
   \<and> currentOwnerProgramHashes (exArbiters\<lparr>totalVotesInRound := 0\<rparr>) \<noteq> []
   \<and> (0::int) \<le> 1000
   \<and> map_option GetArbitersRoundReward
        (stateOf (distributeDPOSReward 1000 (exArbiters\<lparr>totalVotesInRound := 0\<rparr>)))
       = Some (Some [([9], 1000)])
   \<and> map_option GetFinalRoundChange
        (stateOf (distributeDPOSReward 1000 (exArbiters\<lparr>totalVotesInRound := 0\<rparr>))) = Some 1000
   \<and> sum_list (gm_values [([9], 1000::int)]) + 1000 \<noteq> 1000"
  using C1_zero_votes_settlement [of "exArbiters\<lparr>totalVotesInRound := 0\<rparr>" 1000]
  by (auto simp: exArbiters_def exParams_def gm_values_def)

text \<open>
  The branch with votes. Every amount the two loops credit is added to the amount paid,
  so when no owner hash is credited twice and none is the CRC address, a settlement that
  returns without error leaves a ledger whose entries and \<open>finalRoundChange\<close> add up to
  the reward; with non-negative votes and reward every entry is non-negative.
\<close>

lemma gm_get0_missing: "k \<notin> fst ` set m \<Longrightarrow> gm_get0 m k = 0"
  by (simp add: gm_get0_def map_of_eq_None_iff [THEN iffD2])

lemma gm_set_keys: "fst ` set (gm_set k v m) = insert k (fst ` set m)"
  by (induction m) (auto simp: gm_set_def)

lemma gm_set_distinct: "distinct (map fst m) \<Longrightarrow> distinct (map fst (gm_set k v m))"
  by (simp add: gm_set_def distinct_update)

lemma gm_set_sum:
  fixes v :: int
  assumes "distinct (map fst m)"
  shows "sum_list (map snd (gm_set k v m)) = sum_list (map snd m) - gm_get0 m k + v"
  using assms
proof (induction m)
  case Nil
  then show ?case by (simp add: gm_set_def gm_get0_def)
next
  case (Cons kv m)
  obtain k' v' where kv: "kv = (k', v')" by (cases kv)
  show ?case
  proof (cases "k' = k")
    case True
    then show ?thesis using kv by (simp add: gm_set_def gm_get0_def)
  next
    case False
    with Cons kv show ?thesis by (simp add: gm_set_def gm_get0_def)
  qed
qed

lemma gm_set_values:
  fixes v :: int
  assumes "list_all (\<lambda>kv. 0 \<le> snd kv) m" "0 \<le> v"
  shows "list_all (\<lambda>kv. 0 \<le> snd kv) (gm_set k v m)"
  using assms by (induction m) (auto simp: gm_set_def)

lemma gm_get0_nonneg:
  "list_all (\<lambda>kv. 0 \<le> snd kv) m \<Longrightarrow> (0::int) \<le> gm_get0 m k"
  by (induction m) (auto simp: gm_get0_def)

lemma payArbiters_ledger:
  assumes "arbitersRoundReward a = Some m" and "distinct (map fst m)"
    and "CRCAddress (chainParams a) \<in> fst ` set m"
    and "distinct (filter (\<lambda>h. gm_get (crcArbitratorsProgramHashes a) h = None) hs)"
    and "set (filter (\<lambda>h. gm_get (crcArbitratorsProgramHashes a) h = None) hs) \<inter> fst ` set m = {}"
  shows "\<exists>paid' m'. payArbiters ibcr rpv hs paid a = Ok (paid', a\<lparr>arbitersRoundReward := Some m'\<rparr>)
           \<and> distinct (map fst m')
           \<and> fst ` set m' = fst ` set m
                \<union> set (filter (\<lambda>h. gm_get (crcArbitratorsProgramHashes a) h = None) hs)
           \<and> sum_list (map snd m') - paid' = sum_list (map snd m) - paid"
  using assms
proof (induction hs arbitrary: m paid a)
  case Nil
  have "a\<lparr>arbitersRoundReward := Some m\<rparr> = a" using Nil.prems(1) by simp
  then show ?case using Nil.prems(2) by (intro exI[of _ paid] exI[of _ m]) simp
next
  case (Cons h hs)
  let ?crcs = "crcArbitratorsProgramHashes a"
  let ?CRC = "CRCAddress (chainParams a)"
  show ?case
  proof (cases "gm_get ?crcs h = None")
    case False
    define m1 where "m1 = gm_set ?CRC (gm_get0 m ?CRC + ibcr) m"
    define a1 where "a1 = a\<lparr>arbitersRoundReward := Some m1\<rparr>"
    have step: "payArbiters ibcr rpv (h # hs) paid a = payArbiters ibcr rpv hs (paid + ibcr) a1"
      using False Cons.prems(1)
      by (simp add: storeRoundReward_def loadRoundReward_def Let_def a1_def m1_def)
    have k1: "fst ` set m1 = fst ` set m"
      using Cons.prems(3) by (auto simp: m1_def gm_set_keys)
    have d1: "distinct (map fst m1)" using Cons.prems(2) by (simp add: m1_def gm_set_distinct)
    have s1: "sum_list (map snd m1) = sum_list (map snd m) + ibcr"
      using Cons.prems(2) by (simp add: m1_def gm_set_sum)
    have f1: "filter (\<lambda>h. gm_get (crcArbitratorsProgramHashes a1) h = None) hs
                = filter (\<lambda>h. gm_get ?crcs h = None) hs"
      by (simp add: a1_def)
    have f: "filter (\<lambda>h. gm_get ?crcs h = None) (h # hs) = filter (\<lambda>h. gm_get ?crcs h = None) hs"
      using False by simp
    have i1: "arbitersRoundReward a1 = Some m1"
      by (simp add: a1_def)
    have i2: "distinct (map fst m1)"
      by (rule d1)
    have i3: "CRCAddress (chainParams a1) \<in> fst ` set m1"
      using Cons.prems(3) k1 by (simp add: a1_def)
    have i4: "distinct (filter (\<lambda>h. gm_get (crcArbitratorsProgramHashes a1) h = None) hs)"
      using Cons.prems(4) f f1 by simp
    have i5: "set (filter (\<lambda>h. gm_get (crcArbitratorsProgramHashes a1) h = None) hs) \<inter> fst ` set m1 = {}"
      using Cons.prems(5) f f1 k1 by simp
    from Cons.IH[where m=m1 and a=a1 and paid="paid + ibcr", OF i1 i2 i3 i4 i5]
    obtain paid' m' where
      r: "payArbiters ibcr rpv hs (paid + ibcr) a1 = Ok (paid', a1\<lparr>arbitersRoundReward := Some m'\<rparr>)"
         "distinct (map fst m')"
         "fst ` set m' = fst ` set m1
                \<union> set (filter (\<lambda>h. gm_get (crcArbitratorsProgramHashes a1) h = None) hs)"
         "sum_list (map snd m') - paid' = sum_list (map snd m1) - (paid + ibcr)"
      by blast
    have "a1\<lparr>arbitersRoundReward := Some m'\<rparr> = a\<lparr>arbitersRoundReward := Some m'\<rparr>"
      by (simp add: a1_def)
    with r step k1 s1 f f1 show ?thesis by auto
  next
    case True
    define r where "r = ibcr + f64_to_int (f64_mul (f64_of_int (gm_get0 (ownerVotesInRound a) h)) rpv)"
    define m1 where "m1 = gm_set h r m"
    define a1 where "a1 = a\<lparr>arbitersRoundReward := Some m1\<rparr>"
    have step: "payArbiters ibcr rpv (h # hs) paid a = payArbiters ibcr rpv hs (paid + r) a1"
      using True Cons.prems(1)
      by (simp add: storeRoundReward_def Let_def a1_def m1_def r_def)
    have f: "filter (\<lambda>h. gm_get ?crcs h = None) (h # hs) = h # filter (\<lambda>h. gm_get ?crcs h = None) hs"
      using True by simp
    have hm: "h \<notin> fst ` set m" using Cons.prems(5) f by auto
    have hn: "h \<notin> set (filter (\<lambda>h. gm_get ?crcs h = None) hs)" using Cons.prems(4) f by simp
    have k1: "fst ` set m1 = insert h (fst ` set m)" by (simp add: m1_def gm_set_keys)
    have d1: "distinct (map fst m1)" using Cons.prems(2) by (simp add: m1_def gm_set_distinct)
    have s1: "sum_list (map snd m1) = sum_list (map snd m) + r"
      using Cons.prems(2) hm by (simp add: m1_def gm_set_sum gm_get0_missing)
    have f1: "filter (\<lambda>h. gm_get (crcArbitratorsProgramHashes a1) h = None) hs
                = filter (\<lambda>h. gm_get ?crcs h = None) hs"
      by (simp add: a1_def)
    have i1: "arbitersRoundReward a1 = Some m1"
      by (simp add: a1_def)
    have i2: "distinct (map fst m1)"
      by (rule d1)
    have i3: "CRCAddress (chainParams a1) \<in> fst ` set m1"
      using Cons.prems(3) k1 by (simp add: a1_def)
    have i4: "distinct (filter (\<lambda>h. gm_get (crcArbitratorsProgramHashes a1) h = None) hs)"
      using Cons.prems(4) f f1 by simp
    have i5: "set (filter (\<lambda>h. gm_get (crcArbitratorsProgramHashes a1) h = None) hs) \<inter> fst ` set m1 = {}"
      using Cons.prems(5) f f1 k1 hn by auto
    from Cons.IH[where m=m1 and a=a1 and paid="paid + r", OF i1 i2 i3 i4 i5]
    obtain paid' m' where
      r: "payArbiters ibcr rpv hs (paid + r) a1 = Ok (paid', a1\<lparr>arbitersRoundReward := Some m'\<rparr>)"
         "distinct (map fst m')"
         "fst ` set m' = fst ` set m1
                \<union> set (filter (\<lambda>h. gm_get (crcArbitratorsProgramHashes a1) h = None) hs)"
         "sum_list (map snd m') - paid' = sum_list (map snd m1) - (paid + r)"
      by blast
    have "a1\<lparr>arbitersRoundReward := Some m'\<rparr> = a\<lparr>arbitersRoundReward := Some m'\<rparr>"
      by (simp add: a1_def)
    with r step k1 s1 f f1 show ?thesis by auto
  qed
qed

lemma payCandidates_ledger:
  assumes "arbitersRoundReward a = Some m" and "distinct (map fst m)"
    and "distinct hs" and "set hs \<inter> fst ` set m = {}"
  shows "\<exists>paid' m'. payCandidates rpv hs paid a = Ok (paid', a\<lparr>arbitersRoundReward := Some m'\<rparr>)
           \<and> distinct (map fst m')
           \<and> sum_list (map snd m') - paid' = sum_list (map snd m) - paid"
  using assms
proof (induction hs arbitrary: m paid a)
  case Nil
  have "a\<lparr>arbitersRoundReward := Some m\<rparr> = a" using Nil.prems(1) by simp
  then show ?case using Nil.prems(2) by (intro exI[of _ paid] exI[of _ m]) simp
next
  case (Cons h hs)
  define r where "r = f64_to_int (f64_mul (f64_of_int (gm_get0 (ownerVotesInRound a) h)) rpv)"
  define m1 where "m1 = gm_set h r m"
  define a1 where "a1 = a\<lparr>arbitersRoundReward := Some m1\<rparr>"
  have step: "payCandidates rpv (h # hs) paid a = payCandidates rpv hs (paid + r) a1"
    using Cons.prems(1) by (simp add: storeRoundReward_def Let_def a1_def m1_def r_def)
  have hm: "h \<notin> fst ` set m" using Cons.prems(4) by auto
  have k1: "fst ` set m1 = insert h (fst ` set m)" by (simp add: m1_def gm_set_keys)
  have d1: "distinct (map fst m1)" using Cons.prems(2) by (simp add: m1_def gm_set_distinct)
  have s1: "sum_list (map snd m1) = sum_list (map snd m) + r"
    using Cons.prems(2) hm by (simp add: m1_def gm_set_sum gm_get0_missing)
  have i1: "arbitersRoundReward a1 = Some m1"
    by (simp add: a1_def)
  have i2: "distinct (map fst m1)"
    by (rule d1)
  have i3: "distinct hs"
    using Cons.prems(3) by simp
  have i4: "set hs \<inter> fst ` set m1 = {}"
    using Cons.prems(3,4) k1 by auto
  from Cons.IH[where m=m1 and a=a1 and paid="paid + r", OF i1 i2 i3 i4]
  obtain paid' m' where
    r: "payCandidates rpv hs (paid + r) a1 = Ok (paid', a1\<lparr>arbitersRoundReward := Some m'\<rparr>)"
       "distinct (map fst m')"
       "sum_list (map snd m') - paid' = sum_list (map snd m1) - (paid + r)"
    by blast
  have "a1\<lparr>arbitersRoundReward := Some m'\<rparr> = a\<lparr>arbitersRoundReward := Some m'\<rparr>"
    by (simp add: a1_def)
  with r step s1 show ?case by auto
qed

lemma fl64_quarter: "fl64 (25 / 100) = 1 / 4"
  by code_simp

lemma distribute_votes_ledger:
  assumes "totalVotesInRound a \<noteq> 0" and "currentOwnerProgramHashes a \<noteq> []"
    and "arbitersRoundReward a = Some [(CRCAddress (chainParams a), 0)]"
    and "distinct (ledgerHashes a)" and "CRCAddress (chainParams a) \<notin> set (ledgerHashes a)"
  shows "\<exists>paid m'. distributeWithNormalArbitrators reward a
                      = Ok (paid, a\<lparr>arbitersRoundReward := Some m'\<rparr>)
           \<and> sum_list (map snd m') = paid"
proof -
  let ?CRC = "CRCAddress (chainParams a)"
  let ?m = "[(?CRC, 0::int)]"
  let ?stored = "filter (\<lambda>h. gm_get (crcArbitratorsProgramHashes a) h = None) (currentOwnerProgramHashes a)"
  define ibcr where "ibcr = f64_to_int (f64_floor (f64_div (f64_mul (f64_of_int reward) (fl64 (25 / 100)))
                                  (f64_of_int (int (length (currentOwnerProgramHashes a))))))"
  define rpv where "rpv = f64_div (f64_sub (f64_of_int reward) (f64_mul (f64_of_int reward) (fl64 (25 / 100))))
                                  (f64_of_int (totalVotesInRound a))"
  have d: "distinct ?stored" "distinct (candidateOwnerProgramHashes a)"
    "set ?stored \<inter> set (candidateOwnerProgramHashes a) = {}"
    using assms(4) by (simp_all add: ledgerHashes_def)
  have n: "?CRC \<notin> set ?stored" "?CRC \<notin> set (candidateOwnerProgramHashes a)"
    using assms(5) by (simp_all add: ledgerHashes_def)
  have "\<exists>paid' m'. payArbiters ibcr rpv (currentOwnerProgramHashes a) 0 a
            = Ok (paid', a\<lparr>arbitersRoundReward := Some m'\<rparr>)
           \<and> distinct (map fst m')
           \<and> fst ` set m' = fst ` set ?m \<union> set ?stored
           \<and> sum_list (map snd m') - paid' = sum_list (map snd ?m) - 0"
    using assms(3) d(1) n(1) by (intro payArbiters_ledger) simp_all
  then obtain paid1 m1 where
    p1: "payArbiters ibcr rpv (currentOwnerProgramHashes a) 0 a
            = Ok (paid1, a\<lparr>arbitersRoundReward := Some m1\<rparr>)"
    and d1: "distinct (map fst m1)"
    and k1: "fst ` set m1 = fst ` set ?m \<union> set ?stored"
    and s1: "sum_list (map snd m1) - paid1 = sum_list (map snd ?m) - 0"
    by blast
  let ?a1 = "a\<lparr>arbitersRoundReward := Some m1\<rparr>"
  have dj: "set (candidateOwnerProgramHashes ?a1) \<inter> fst ` set m1 = {}"
    using k1 d(3) n(2) by auto
  have "\<exists>paid' m'. payCandidates rpv (candidateOwnerProgramHashes ?a1) paid1 ?a1
            = Ok (paid', ?a1\<lparr>arbitersRoundReward := Some m'\<rparr>)
           \<and> distinct (map fst m')
           \<and> sum_list (map snd m') - paid' = sum_list (map snd m1) - paid1"
    using d1 d(2) dj by (intro payCandidates_ledger) simp_all
  then obtain paid2 m2 where
    p2: "payCandidates rpv (candidateOwnerProgramHashes ?a1) paid1 ?a1
            = Ok (paid2, ?a1\<lparr>arbitersRoundReward := Some m2\<rparr>)"
    and s2: "sum_list (map snd m2) - paid2 = sum_list (map snd m1) - paid1"
    by blast
  have e: "?a1\<lparr>arbitersRoundReward := Some m2\<rparr> = a\<lparr>arbitersRoundReward := Some m2\<rparr>" by simp
  have "distributeWithNormalArbitrators reward a = Ok (paid2, a\<lparr>arbitersRoundReward := Some m2\<rparr>)"
    using assms(1,2) p1 p2 e
    unfolding distributeWithNormalArbitrators_def Let_def ibcr_def rpv_def by simp
  moreover have "sum_list (map snd m2) = paid2" using s1 s2 by simp
  ultimately show ?thesis by blast
qed

theorem settlement_with_votes:
  assumes "totalVotesInRound a \<noteq> 0"
    and "distinct (ledgerHashes a)" and "CRCAddress (chainParams a) \<notin> set (ledgerHashes a)"
    and "distributeDPOSReward reward a = Ok a'"
  shows "\<exists>m'. GetArbitersRoundReward a' = Some m'
            \<and> sum_list (gm_values m') + GetFinalRoundChange a' = reward
            \<and> 0 \<le> GetFinalRoundChange a'"
proof -
  let ?a0 = "a\<lparr>arbitersRoundReward := Some (gm_set (CRCAddress (chainParams a)) 0 [])\<rparr>"
  have ne: "currentOwnerProgramHashes a \<noteq> []"
  proof
    assume "currentOwnerProgramHashes a = []"
    then have "distributeDPOSReward reward a = Err ErrNoArbiters ?a0"
      by (simp add: distributeDPOSReward_def distributeWithNormalArbitrators_def Let_def)
    with assms(4) show False by simp
  qed
  have "\<exists>paid m'. distributeWithNormalArbitrators reward ?a0
                      = Ok (paid, ?a0\<lparr>arbitersRoundReward := Some m'\<rparr>)
           \<and> sum_list (map snd m') = paid"
    using assms(1,2,3) ne
    by (intro distribute_votes_ledger) (simp_all add: ledgerHashes_def gm_set_def)
  then obtain paid m' where
    p: "distributeWithNormalArbitrators reward ?a0 = Ok (paid, ?a0\<lparr>arbitersRoundReward := Some m'\<rparr>)"
    and s: "sum_list (map snd m') = paid"
    by blast
  from assms(4) p have "\<not> reward - paid < 0"
    and "a' = ?a0\<lparr>arbitersRoundReward := Some m', finalRoundChange := reward - paid\<rparr>"
    by (auto simp: distributeDPOSReward_def Let_def split: if_splits)
  with s show ?thesis
    by (simp add: GetArbitersRoundReward_def GetFinalRoundChange_def gm_values_def)
qed

lemma fl64_nonneg: "0 \<le> x \<Longrightarrow> 0 \<le> fl64 x"
proof (cases "x = 0")
  case True
  then show ?thesis by (simp add: fl64_def)
next
  case False
  assume "0 \<le> x"
  with False have xpos: "0 < x" by simp
  have "0 < x / pow2 (expo x)" using xpos pow2_pos[of "expo x"] by simp
  then have "(of_int 0 :: rat) \<le> x / pow2 (expo x)" by simp
  then have "0 \<le> round_even (x / pow2 (expo x))" by (rule round_even_ge)
  then have "(0::rat) \<le> of_int (round_even (x / pow2 (expo x))) * pow2 (expo x)"
    using pow2_pos[of "expo x"] by simp
  then show ?thesis using xpos by (simp add: fl64_def)
qed

lemma fl64_quarter': "fl64 (1 / 4) = 1 / 4"
  using fl64_quarter by simp

lemma f64_to_int_nonneg: "0 \<le> a \<Longrightarrow> 0 \<le> f64_to_int a"
  by (simp add: f64_to_int_def)

lemma producerReward_nonneg:
  assumes "0 \<le> votes" "0 \<le> rpv"
  shows "0 \<le> f64_to_int (f64_mul (f64_of_int votes) rpv)"
proof -
  have "(0::rat) \<le> f64_of_int votes" using assms(1) by (simp add: f64_of_int_def fl64_nonneg)
  then have "0 \<le> f64_of_int votes * rpv" using assms(2) by simp
  then show ?thesis by (simp add: f64_mul_def fl64_nonneg f64_to_int_nonneg)
qed

lemma confirmReward_nonneg:
  assumes "0 \<le> reward"
  shows "0 \<le> f64_to_int (f64_floor (f64_div (f64_mul (f64_of_int reward) (fl64 (25 / 100)))
                                  (f64_of_int (int n))))"
proof -
  have r: "(0::rat) \<le> f64_of_int reward" using assms by (simp add: f64_of_int_def fl64_nonneg)
  have q: "(0::rat) \<le> fl64 (25 / 100)" by (simp add: fl64_quarter')
  have "0 \<le> f64_of_int reward * fl64 (25 / 100)" using r q by (rule mult_nonneg_nonneg)
  then have "(0::rat) \<le> f64_mul (f64_of_int reward) (fl64 (25 / 100))"
    unfolding f64_mul_def by (rule fl64_nonneg)
  moreover have "(0::rat) \<le> f64_of_int (int n)" by (simp add: f64_of_int_def fl64_nonneg)
  ultimately have "0 \<le> f64_mul (f64_of_int reward) (fl64 (25 / 100)) / f64_of_int (int n)"
    by (rule divide_nonneg_nonneg)
  then have "(0::rat) \<le> f64_div (f64_mul (f64_of_int reward) (fl64 (25 / 100))) (f64_of_int (int n))"
    unfolding f64_div_def by (rule fl64_nonneg)
  then have "(0::rat) \<le> f64_floor (f64_div (f64_mul (f64_of_int reward) (fl64 (25 / 100))) (f64_of_int (int n)))"
    by (simp add: f64_floor_def)
  then show ?thesis by (rule f64_to_int_nonneg)
qed

lemma rewardPerVote_nonneg:
  assumes "0 \<le> reward" "0 < tv"
  shows "0 \<le> f64_div (f64_sub (f64_of_int reward) (f64_mul (f64_of_int reward) (fl64 (25 / 100))))
                       (f64_of_int tv)"
proof -
  define R where "R = f64_of_int reward"
  have r: "(0::rat) \<le> R" using assms(1) by (simp add: R_def f64_of_int_def fl64_nonneg)
  have "f64_mul R (fl64 (25 / 100)) \<le> R"
  proof (cases "R = 0")
    case True
    then show ?thesis by (simp add: f64_mul_def fl64_def)
  next
    case False
    with r have pos: "0 < R / 4" by simp
    from fl64_error[OF pos] have "fl64 (R / 4) \<le> R / 4 + (R / 4) / 2 ^ 53" by linarith
    also have "\<dots> \<le> R" using r by simp
    finally show ?thesis by (simp add: f64_mul_def fl64_quarter')
  qed
  then have "0 \<le> R - f64_mul R (fl64 (25 / 100))" by simp
  then have "0 \<le> f64_sub R (f64_mul R (fl64 (25 / 100)))"
    unfolding f64_sub_def by (rule fl64_nonneg)
  moreover have "(0::rat) \<le> f64_of_int tv" using assms(2) by (simp add: f64_of_int_def fl64_nonneg)
  ultimately have "0 \<le> f64_sub R (f64_mul R (fl64 (25 / 100))) / f64_of_int tv"
    by (rule divide_nonneg_nonneg)
  then show ?thesis
    unfolding f64_div_def R_def by (rule fl64_nonneg)
qed

lemma payArbiters_nonneg:
  assumes "payArbiters ibcr rpv hs paid a = Ok (paid', a')"
    and "arbitersRoundReward a = Some m" and "list_all (\<lambda>kv. 0 \<le> snd kv) m"
    and "0 \<le> ibcr" and "0 \<le> rpv" and "list_all (\<lambda>kv. 0 \<le> snd kv) (ownerVotesInRound a)"
  shows "\<exists>m'. arbitersRoundReward a' = Some m' \<and> list_all (\<lambda>kv. 0 \<le> snd kv) m'
            \<and> ownerVotesInRound a' = ownerVotesInRound a"
  using assms
proof (induction hs arbitrary: paid a m)
  case Nil
  then show ?case by simp
next
  case (Cons h hs)
  define votes where "votes = gm_get0 (ownerVotesInRound a) h"
  define ipr where "ipr = f64_to_int (f64_mul (f64_of_int votes) rpv)"
  have v: "0 \<le> votes" using Cons.prems(6) by (simp add: votes_def gm_get0_nonneg)
  have i: "0 \<le> ipr" using v Cons.prems(5) by (simp add: ipr_def producerReward_nonneg)
  have l: "0 \<le> gm_get0 m (CRCAddress (chainParams a))"
    using Cons.prems(3) by (rule gm_get0_nonneg)
  show ?case
  proof (cases "gm_get (crcArbitratorsProgramHashes a) h = None")
    case False
    define m1 where "m1 = gm_set (CRCAddress (chainParams a)) (gm_get0 m (CRCAddress (chainParams a)) + ibcr) m"
    define a1 where "a1 = a\<lparr>arbitersRoundReward := Some m1\<rparr>"
    have step: "payArbiters ibcr rpv (h # hs) paid a = payArbiters ibcr rpv hs (paid + ibcr) a1"
      using False Cons.prems(2)
      by (simp add: storeRoundReward_def loadRoundReward_def Let_def a1_def m1_def)
    have n1: "list_all (\<lambda>kv. 0 \<le> snd kv) m1"
      unfolding m1_def using Cons.prems(3,4) l by (intro gm_set_values) simp_all
    have j1: "arbitersRoundReward a1 = Some m1" by (simp add: a1_def)
    have j2: "list_all (\<lambda>kv. 0 \<le> snd kv) (ownerVotesInRound a1)"
      using Cons.prems(6) by (simp add: a1_def)
    have j0: "payArbiters ibcr rpv hs (paid + ibcr) a1 = Ok (paid', a')"
      using Cons.prems(1) step by simp
    from Cons.IH[OF j0 j1 n1 Cons.prems(4,5) j2] show ?thesis by (simp add: a1_def)
  next
    case True
    define m1 where "m1 = gm_set h (ibcr + ipr) m"
    define a1 where "a1 = a\<lparr>arbitersRoundReward := Some m1\<rparr>"
    have step: "payArbiters ibcr rpv (h # hs) paid a = payArbiters ibcr rpv hs (paid + (ibcr + ipr)) a1"
      using True Cons.prems(2)
      by (simp add: storeRoundReward_def Let_def a1_def m1_def ipr_def votes_def)
    have n1: "list_all (\<lambda>kv. 0 \<le> snd kv) m1"
      unfolding m1_def using Cons.prems(3,4) i by (intro gm_set_values) simp_all
    have j1: "arbitersRoundReward a1 = Some m1" by (simp add: a1_def)
    have j2: "list_all (\<lambda>kv. 0 \<le> snd kv) (ownerVotesInRound a1)"
      using Cons.prems(6) by (simp add: a1_def)
    have j0: "payArbiters ibcr rpv hs (paid + (ibcr + ipr)) a1 = Ok (paid', a')"
      using Cons.prems(1) step by simp
    from Cons.IH[OF j0 j1 n1 Cons.prems(4,5) j2] show ?thesis by (simp add: a1_def)
  qed
qed

lemma payCandidates_nonneg:
  assumes "payCandidates rpv hs paid a = Ok (paid', a')"
    and "arbitersRoundReward a = Some m" and "list_all (\<lambda>kv. 0 \<le> snd kv) m"
    and "0 \<le> rpv" and "list_all (\<lambda>kv. 0 \<le> snd kv) (ownerVotesInRound a)"
  shows "\<exists>m'. arbitersRoundReward a' = Some m' \<and> list_all (\<lambda>kv. 0 \<le> snd kv) m'"
  using assms
proof (induction hs arbitrary: paid a m)
  case Nil
  then show ?case by simp
next
  case (Cons h hs)
  define votes where "votes = gm_get0 (ownerVotesInRound a) h"
  define ipr where "ipr = f64_to_int (f64_mul (f64_of_int votes) rpv)"
  have v: "0 \<le> votes" using Cons.prems(5) by (simp add: votes_def gm_get0_nonneg)
  have i: "0 \<le> ipr" using v Cons.prems(4) by (simp add: ipr_def producerReward_nonneg)
  define m1 where "m1 = gm_set h ipr m"
  define a1 where "a1 = a\<lparr>arbitersRoundReward := Some m1\<rparr>"
  have step: "payCandidates rpv (h # hs) paid a = payCandidates rpv hs (paid + ipr) a1"
    using Cons.prems(2)
    by (simp add: storeRoundReward_def Let_def a1_def m1_def ipr_def votes_def)
  have n1: "list_all (\<lambda>kv. 0 \<le> snd kv) m1"
    unfolding m1_def using Cons.prems(3) i by (intro gm_set_values) simp_all
  have j1: "arbitersRoundReward a1 = Some m1" by (simp add: a1_def)
  have j2: "list_all (\<lambda>kv. 0 \<le> snd kv) (ownerVotesInRound a1)"
    using Cons.prems(5) by (simp add: a1_def)
  have j0: "payCandidates rpv hs (paid + ipr) a1 = Ok (paid', a')"
    using Cons.prems(1) step by simp
  from Cons.IH[OF j0 j1 n1 Cons.prems(4) j2] show ?case .
qed

theorem settlement_with_votes_nonneg:
  assumes "0 < totalVotesInRound a" and "0 \<le> reward"
    and "list_all (\<lambda>kv. 0 \<le> snd kv) (ownerVotesInRound a)"
    and "distributeDPOSReward reward a = Ok a'"
  shows "\<exists>m'. GetArbitersRoundReward a' = Some m' \<and> list_all (\<lambda>v. 0 \<le> v) (gm_values m')"
proof -
  let ?CRC = "CRCAddress (chainParams a)"
  let ?a0 = "a\<lparr>arbitersRoundReward := Some (gm_set ?CRC 0 [])\<rparr>"
  define ibcr where "ibcr = f64_to_int (f64_floor (f64_div (f64_mul (f64_of_int reward) (fl64 (25 / 100)))
                                  (f64_of_int (int (length (currentOwnerProgramHashes a))))))"
  define rpv where "rpv = f64_div (f64_sub (f64_of_int reward) (f64_mul (f64_of_int reward) (fl64 (25 / 100))))
                                  (f64_of_int (totalVotesInRound a))"
  have ib: "0 \<le> ibcr" unfolding ibcr_def using assms(2) by (rule confirmReward_nonneg)
  have rp: "0 \<le> rpv" unfolding rpv_def using assms(2,1) by (rule rewardPerVote_nonneg)
  from assms(4) obtain paid a2 where
    dw: "distributeWithNormalArbitrators reward ?a0 = Ok (paid, a2)"
    and a': "a' = a2\<lparr>finalRoundChange := reward - paid\<rparr>"
    by (auto simp: distributeDPOSReward_def Let_def split: result.splits if_splits)
  from dw assms(1) obtain paid1 a1 where
    p1: "payArbiters ibcr rpv (currentOwnerProgramHashes a) 0 ?a0 = Ok (paid1, a1)"
    and p2: "payCandidates rpv (candidateOwnerProgramHashes a1) paid1 a1 = Ok (paid, a2)"
    unfolding distributeWithNormalArbitrators_def Let_def ibcr_def rpv_def
    by (auto split: if_splits result.splits)
  have m0: "arbitersRoundReward ?a0 = Some (gm_set ?CRC 0 [])" by simp
  have n0: "list_all (\<lambda>kv. 0 \<le> snd kv) (gm_set ?CRC (0::int) [])" by (simp add: gm_set_def)
  have v0: "list_all (\<lambda>kv. 0 \<le> snd kv) (ownerVotesInRound ?a0)" using assms(3) by simp
  from payArbiters_nonneg[OF p1 m0 n0 ib rp v0] obtain m1 where
    m1: "arbitersRoundReward a1 = Some m1" "list_all (\<lambda>kv. 0 \<le> snd kv) m1"
        "ownerVotesInRound a1 = ownerVotesInRound ?a0"
    by blast
  have v1: "list_all (\<lambda>kv. 0 \<le> snd kv) (ownerVotesInRound a1)" using m1(3) assms(3) by simp
  from payCandidates_nonneg[OF p2 m1(1,2) rp v1] obtain m2 where
    m2: "arbitersRoundReward a2 = Some m2" "list_all (\<lambda>kv. 0 \<le> snd kv) m2"
    by blast
  then show ?thesis using a'
    by (simp add: GetArbitersRoundReward_def gm_values_def list_all_iff)
qed

theorem settlement_with_votes_example:
  "totalVotesInRound exArbiters \<noteq> 0
   \<and> distinct (ledgerHashes exArbiters)
   \<and> CRCAddress (chainParams exArbiters) \<notin> set (ledgerHashes exArbiters)
   \<and> map_option GetArbitersRoundReward (stateOf (distributeDPOSReward 1000 exArbiters))
       = Some (Some [([9], 100), ([13], 500), ([14], 275), ([15], 125), ([16], 0)])
   \<and> map_option GetFinalRoundChange (stateOf (distributeDPOSReward 1000 exArbiters)) = Some 0"
  by code_simp

end
